theory Spec2Isabelle
  imports Main "HOL-Library.Sublist" "HOL-Library.Log_Nat"
begin

section \<open>JavaScript strings\<close>

text \<open>
  A JavaScript string is a sequence of code units. The model uses \<^typ>\<open>string\<close>, so
  it covers the texts whose code units are below 256 (Latin-1); \<open>length\<close> is the
  \<^verbatim>\<open>.length\<close> of the source. In that range the white space of \<^verbatim>\<open>trim()\<close>
  and of the regular-expression class \<^verbatim>\<open>\s\<close> (WhiteSpace and LineTerminator of
  ECMAScript) is TAB, LF, VT, FF, CR, SP and NBSP; the line terminators that
  \<^verbatim>\<open>.\<close> refuses are LF and CR.
\<close>

definition is_space :: "char \<Rightarrow> bool" where
  "is_space c \<longleftrightarrow>
     c \<in> set [CHR 0x09, CHR 0x0A, CHR 0x0B, CHR 0x0C, CHR 0x0D, CHR 0x20, CHR 0xA0]"

definition is_nonspace :: "char \<Rightarrow> bool" where
  "is_nonspace c \<longleftrightarrow> \<not> is_space c"

definition is_digit :: "char \<Rightarrow> bool" where
  "is_digit c \<longleftrightarrow> c \<in> set ''0123456789''"

definition is_word :: "char \<Rightarrow> bool" where
  "is_word c \<longleftrightarrow>
     c \<in> set ''abcdefghijklmnopqrstuvwxyzABCDEFGHIJKLMNOPQRSTUVWXYZ0123456789_''"

definition is_dot :: "char \<Rightarrow> bool" where
  "is_dot c \<longleftrightarrow> c \<noteq> CHR 0x0A \<and> c \<noteq> CHR 0x0D"

definition is_any :: "char \<Rightarrow> bool" where
  "is_any c \<longleftrightarrow> True"

text \<open>
  Canonicalisation of the \<^verbatim>\<open>i\<close> flag (without \<^verbatim>\<open>u\<close>): a code unit is
  compared by its upper case, and a code unit above 127 never canonicalises to an ASCII
  one, so only the ASCII letters fold.
\<close>

definition upper :: "char \<Rightarrow> char" where
  "upper c = (case map_of (zip ''abcdefghijklmnopqrstuvwxyz'' ''ABCDEFGHIJKLMNOPQRSTUVWXYZ'') c of
                Some u \<Rightarrow> u | None \<Rightarrow> c)"

definition trim :: "string \<Rightarrow> string" where
  "trim s = rev (dropWhile is_space (rev (dropWhile is_space s)))"

text \<open>\<^verbatim>\<open>code.split("\n")\<close>: the empty text gives one empty line.\<close>

fun split_lines :: "string \<Rightarrow> string list" where
  "split_lines [] = [[]]"
| "split_lines (c # cs) =
     (if c = CHR 0x0A then [] # split_lines cs
      else (case split_lines cs of [] \<Rightarrow> [[c]] | l # ls \<Rightarrow> (c # l) # ls))"

section \<open>Regular expressions\<close>

text \<open>
  The parser is written with regular-expression literals. They are kept as terms of
  a small syntax, and matched by a backtracking matcher that returns the list of all
  ways to match at the start of the input, in the order in which the backtracking
  matcher of ECMAScript tries them: the head of the list is the match the engine
  reports. A result is the rest of the input and the captures.
\<close>

type_synonym captures = "nat \<rightharpoonup> string"

datatype re =
    Chr "char \<Rightarrow> bool"
  | Eps
  | Eol
  | Seq re re
  | Alt re re
  | Star re
  | LazyStar re
  | Grp nat re

function ms :: "re \<Rightarrow> string \<times> captures \<Rightarrow> (string \<times> captures) list" where
  "ms (Chr P) (s, c) = (case s of [] \<Rightarrow> [] | x # xs \<Rightarrow> if P x then [(xs, c)] else [])"
| "ms Eps (s, c) = [(s, c)]"
| "ms Eol (s, c) = (if s = [] then [(s, c)] else [])"
| "ms (Seq a b) (s, c) = concat (map (ms b) (ms a (s, c)))"
| "ms (Alt a b) (s, c) = ms a (s, c) @ ms b (s, c)"
| "ms (Star a) (s, c) =
     concat (map (ms (Star a)) (filter (\<lambda>t. length (fst t) < length s) (ms a (s, c))))
     @ [(s, c)]"
| "ms (LazyStar a) (s, c) =
     (s, c) #
     concat (map (ms (LazyStar a)) (filter (\<lambda>t. length (fst t) < length s) (ms a (s, c))))"
| "ms (Grp i a) (s, c) =
     map (\<lambda>t. (fst t, (snd t)(i \<mapsto> take (length s - length (fst t)) s))) (ms a (s, c))"
  by pat_completeness auto
termination
  by (relation "inv_image (measure size <*lex*> measure length) (\<lambda>(r, s, c). (r, s))")
     auto

declare ms.simps(6) [simp del] ms.simps(7) [simp del]

text \<open>\<^verbatim>\<open>r+\<close>, \<^verbatim>\<open>r+?\<close>, \<^verbatim>\<open>r?\<close> and literals, as the usual abbreviations.\<close>

definition Plus :: "re \<Rightarrow> re" where
  "Plus r = Seq r (Star r)"

definition LazyPlus :: "re \<Rightarrow> re" where
  "LazyPlus r = Seq r (LazyStar r)"

definition Opt :: "re \<Rightarrow> re" where
  "Opt r = Alt r Eps"

fun lit :: "string \<Rightarrow> re" where
  "lit [] = Eps"
| "lit (x # xs) = Seq (Chr (\<lambda>c. c = x)) (lit xs)"

fun lit_i :: "string \<Rightarrow> re" where
  "lit_i [] = Eps"
| "lit_i (x # xs) = Seq (Chr (\<lambda>c. upper c = upper x)) (lit_i xs)"

text \<open>
  \<^verbatim>\<open>s.match(r)\<close> and \<^verbatim>\<open>r.test(s)\<close> for a pattern that begins with \<^verbatim>\<open>^\<close>
  (and has no \<^verbatim>\<open>g\<close> or \<^verbatim>\<open>m\<close> flag): the only start position that can
  succeed is 0, and the result is the first way to match there.
\<close>

definition re_match :: "re \<Rightarrow> string \<Rightarrow> captures option" where
  "re_match r s = (case ms r (s, Map.empty) of [] \<Rightarrow> None | t # _ \<Rightarrow> Some (snd t))"

definition re_test :: "re \<Rightarrow> string \<Rightarrow> bool" where
  "re_test r s \<longleftrightarrow> re_match r s \<noteq> None"

text \<open>A capture that took part in the match; \<^verbatim>\<open>undefined\<close> reads as the empty string.\<close>

definition grp :: "captures \<Rightarrow> nat \<Rightarrow> string" where
  "grp c i = (case c i of None \<Rightarrow> [] | Some g \<Rightarrow> g)"

text \<open>
  \<^verbatim>\<open>s.replace(r, f)\<close> for a pattern with the \<^verbatim>\<open>g\<close> flag: the positions are tried
  from left to right; a match is replaced and the search goes on behind it; after an
  empty match the engine steps over one code unit, which is copied.
\<close>

function replace_all :: "re \<Rightarrow> (captures \<Rightarrow> string) \<Rightarrow> string \<Rightarrow> string" where
  "replace_all r f s =
     (case ms r (s, Map.empty) of
        [] \<Rightarrow> (case s of [] \<Rightarrow> [] | x # xs \<Rightarrow> x # replace_all r f xs)
      | t # _ \<Rightarrow>
          (if length (fst t) < length s then f (snd t) @ replace_all r f (fst t)
           else (case s of [] \<Rightarrow> f (snd t) | x # xs \<Rightarrow> f (snd t) @ x # replace_all r f xs)))"
  by pat_completeness auto
termination
  by (relation "measure (\<lambda>(r, f, s). length s)") auto

declare replace_all.simps [simp del]

section \<open>The diagram model\<close>

text \<open>
  The interfaces \<^verbatim>\<open>Participant\<close>, \<^verbatim>\<open>SeqMsg\<close> and \<^verbatim>\<open>Diagram\<close> of
  \<^verbatim>\<open>src/app/page.tsx\<close>. The fields carry a prefix where the source's name is taken
  in Isabelle (\<^verbatim>\<open>id\<close>, \<^verbatim>\<open>from\<close>, \<^verbatim>\<open>text\<close>). The counter \<^verbatim>\<open>step\<close> is a
  natural number: it counts the pushes to an array, whose length stays far below the
  \<open>2\<^sup>5\<^sup>3\<close> where a JavaScript number stops counting. \<^verbatim>\<open>displayStep\<close> is the
  JavaScript number that \<^verbatim>\<open>parseInt\<close> returns (section on numbers below).
\<close>

record Participant =
  p_id :: string
  p_label :: string
  p_color :: string

datatype Arrow = Solid | Dashed

section \<open>JavaScript numbers\<close>

text \<open>
  A JavaScript number is an IEEE 754 double: a finite value, one of the two
  infinities, or \<^verbatim>\<open>NaN\<close>. A finite double is kept as the rational it stands for.
  \<open>fl\<close> rounds a rational to the nearest double, ties to even: 53 significant bits,
  the spacing of the subnormals (\<open>2\<^bsup>-1074\<^esup>\<close>) below \<open>2\<^bsup>-1022\<^esup>\<close>, and an infinity
  when the rounded value reaches \<open>2\<^bsup>1024\<^esup>\<close>, that is, when its binary logarithm
  is 1024 or more. Every arithmetic operation on finite operands is the exact one
  followed by \<open>fl\<close>.

  The two zeros are one value here. The renderer divides by the constant 2 only and
  prints both zeros as \<^verbatim>\<open>0\<close>, so the sign of a zero never shows; the quotient by
  zero, which does not come up, takes the zero as positive.
\<close>

datatype number = Num rat | PInf | NInf | NaN

text \<open>\<open>ilog2 x\<close> is \<open>\<lfloor>log\<^sub>2 x\<rfloor>\<close> for \<open>x > 0\<close>.\<close>

definition pow2 :: "int \<Rightarrow> rat" where
  "pow2 e = (if 0 \<le> e then 2 ^ nat e else 1 / 2 ^ nat (- e))"

definition ilog2 :: "rat \<Rightarrow> int" where
  "ilog2 x = (let (p, q) = quotient_of x; d = bitlen p - bitlen q
              in if pow2 d \<le> x then d else d - 1)"

definition round_even :: "rat \<Rightarrow> int" where
  "round_even x = (let n = \<lfloor>x\<rfloor>; r = x - of_int n
                   in if r < 1 / 2 then n else if 1 / 2 < r then n + 1
                      else if even n then n else n + 1)"

definition fl :: "rat \<Rightarrow> number" where
  "fl x = (if x = 0 then Num 0
           else let u = pow2 (max (ilog2 \<bar>x\<bar> - 52) (- 1074));
                    r = of_int (round_even (x / u)) * u
                in if 1024 \<le> ilog2 \<bar>r\<bar> then (if 0 < x then PInf else NInf) else Num r)"

text \<open>
  The operators of the source keep their symbols. The numbers are no ring (the
  rounded sum is not associative), so there are no numerals of type \<open>number\<close>: a
  literal \<^verbatim>\<open>0.31\<close> is \<open>lit_num (31 / 100)\<close>, the double nearest to it.
\<close>

definition lit_num :: "rat \<Rightarrow> number" where
  "lit_num x = fl x"

definition number_of_nat :: "nat \<Rightarrow> number" where
  "number_of_nat n = fl (of_nat n)"

fun positive :: "number \<Rightarrow> bool" where
  "positive (Num x) = (0 < x)"
| "positive PInf = True"
| "positive NInf = False"
| "positive NaN = False"

definition quotient :: "number \<Rightarrow> number \<Rightarrow> number" where
  "quotient a b =
     (case (a, b) of
        (Num x, Num y) \<Rightarrow>
          if y = 0 then (if x = 0 then NaN else if 0 < x then PInf else NInf)
          else fl (x / y)
      | (NaN, _) \<Rightarrow> NaN
      | (_, NaN) \<Rightarrow> NaN
      | (Num x, _) \<Rightarrow> Num 0
      | (_, Num y) \<Rightarrow> if positive a = (0 \<le> y) then PInf else NInf
      | _ \<Rightarrow> NaN)"

instantiation number :: "{plus, uminus, minus, times, inverse, ord}"
begin

definition plus_number :: "number \<Rightarrow> number \<Rightarrow> number" where
  "plus_number a b =
     (case (a, b) of
        (Num x, Num y) \<Rightarrow> fl (x + y)
      | (NaN, _) \<Rightarrow> NaN
      | (_, NaN) \<Rightarrow> NaN
      | (PInf, NInf) \<Rightarrow> NaN
      | (NInf, PInf) \<Rightarrow> NaN
      | (PInf, _) \<Rightarrow> PInf
      | (NInf, _) \<Rightarrow> NInf
      | (_, PInf) \<Rightarrow> PInf
      | (_, NInf) \<Rightarrow> NInf)"

definition uminus_number :: "number \<Rightarrow> number" where
  "uminus_number a =
     (case a of Num x \<Rightarrow> Num (- x) | PInf \<Rightarrow> NInf | NInf \<Rightarrow> PInf | NaN \<Rightarrow> NaN)"

definition minus_number :: "number \<Rightarrow> number \<Rightarrow> number" where
  "minus_number a b = a + (- b)"

definition times_number :: "number \<Rightarrow> number \<Rightarrow> number" where
  "times_number a b =
     (case (a, b) of
        (Num x, Num y) \<Rightarrow> fl (x * y)
      | (NaN, _) \<Rightarrow> NaN
      | (_, NaN) \<Rightarrow> NaN
      | _ \<Rightarrow> if a = Num 0 \<or> b = Num 0 then NaN
             else if positive a = positive b then PInf else NInf)"

definition divide_number :: "number \<Rightarrow> number \<Rightarrow> number" where
  "divide_number a b = quotient a b"

definition inverse_number :: "number \<Rightarrow> number" where
  "inverse_number a = quotient (Num 1) a"

definition less_number :: "number \<Rightarrow> number \<Rightarrow> bool" where
  "less_number a b =
     (case (a, b) of
        (Num x, Num y) \<Rightarrow> x < y
      | (NaN, _) \<Rightarrow> False
      | (_, NaN) \<Rightarrow> False
      | (PInf, _) \<Rightarrow> False
      | (_, NInf) \<Rightarrow> False
      | (NInf, _) \<Rightarrow> True
      | (_, PInf) \<Rightarrow> True)"

definition less_eq_number :: "number \<Rightarrow> number \<Rightarrow> bool" where
  "less_eq_number a b = (a \<noteq> NaN \<and> b \<noteq> NaN \<and> (a = b \<or> a < b))"

instance ..

end

text \<open>
  \<^verbatim>\<open>Math.round\<close>: the nearest integer, a tie going up. \<^verbatim>\<open>Math.max\<close>:
  \<^verbatim>\<open>NaN\<close> as soon as an argument is.
\<close>

definition Math_round :: "number \<Rightarrow> number" where
  "Math_round a = (case a of Num x \<Rightarrow> Num (of_int \<lfloor>x + 1 / 2\<rfloor>) | _ \<Rightarrow> a)"

definition Math_max :: "number \<Rightarrow> number \<Rightarrow> number" where
  "Math_max a b = (if a = NaN \<or> b = NaN then NaN else if a < b then b else a)"

subsection \<open>Number to string\<close>

text \<open>
  \<^verbatim>\<open>Number::toString\<close> of ECMAScript, which a template literal applies to a number:
  the decimal \<open>s \<times> 10\<^bsup>n-k\<^esup>\<close> with the fewest digits \<open>k\<close> that rounds to the
  number, the one nearest to the number when several do, printed without exponent
  when \<open>-6 < n \<le> 21\<close>.
\<close>

text \<open>The decimal digits of an integer that is not negative.\<close>

function dec :: "int \<Rightarrow> string" where
  "dec n = (if n < 10 then [''0123456789'' ! nat n]
            else dec (n div 10) @ [''0123456789'' ! nat (n mod 10)])"
  by pat_completeness auto
termination
  by (relation "measure nat") auto

declare dec.simps [simp del]

definition pow10 :: "int \<Rightarrow> rat" where
  "pow10 e = (if 0 \<le> e then 10 ^ nat e else 1 / 10 ^ nat (- e))"

text \<open>\<open>mag x\<close> is the \<open>n\<close> with \<open>10\<^bsup>n-1\<^esup> \<le> x < 10\<^sup>n\<close>, for \<open>x > 0\<close>.\<close>

fun mag_below :: "nat \<Rightarrow> rat \<Rightarrow> int" where
  "mag_below 0 x = 0"
| "mag_below (Suc fuel) x = (if 1 / 10 \<le> x then 0 else mag_below fuel (10 * x) - 1)"

definition mag :: "rat \<Rightarrow> int" where
  "mag x = (if 1 \<le> x then int (length (dec \<lfloor>x\<rfloor>))
            else mag_below (length (dec (snd (quotient_of x)))) x)"

text \<open>
  With \<open>k\<close> digits, the decimals next to \<open>x\<close> are the one just below or at \<open>x\<close> and
  the one just above. If a decimal of \<open>k\<close> digits rounds to \<open>x\<close> then one of these two
  does, since the values that round to \<open>x\<close> lie around it without a gap; of the two,
  the nearer one is taken, and the even one when they are equally near. The upper one
  may be \<open>10\<^sup>n\<close>, which is written with the digit 1 and one more place.
\<close>

definition norm_digits :: "nat \<Rightarrow> int \<Rightarrow> int \<Rightarrow> int \<times> int" where
  "norm_digits k s n = (if s = 10 ^ k then (10 ^ (k - 1), n + 1) else (s, n))"

definition candidate :: "rat \<Rightarrow> nat \<Rightarrow> (int \<times> int) option" where
  "candidate x k =
     (let n = mag x; q = pow10 (n - int k);
          lo = \<lfloor>x / q\<rfloor>; hi = lo + 1;
          ok_lo = (fl (of_int lo * q) = Num x); ok_hi = (fl (of_int hi * q) = Num x);
          dl = x - of_int lo * q; dh = of_int hi * q - x
      in if ok_lo \<and> ok_hi
         then Some (norm_digits k (if dl < dh then lo else if dh < dl then hi
                                   else if even lo then lo else hi) n)
         else if ok_lo then Some (norm_digits k lo n)
         else if ok_hi then Some (norm_digits k hi n)
         else None)"

text \<open>
  The search goes through \<open>k = 1, 2, \<dots>\<close>; 17 digits always do for a double, and
  then the decimal of 17 digits nearest to the number is the one.
\<close>

definition nearest :: "rat \<Rightarrow> nat \<Rightarrow> int \<times> int" where
  "nearest x k = (let n = mag x in norm_digits k (round_even (x * pow10 (int k - n))) n)"

fun shortest :: "nat \<Rightarrow> nat \<Rightarrow> rat \<Rightarrow> nat \<times> int \<times> int" where
  "shortest 0 k x = (k, nearest x k)"
| "shortest (Suc fuel) k x =
     (case candidate x k of Some sn \<Rightarrow> (k, sn) | None \<Rightarrow> shortest fuel (Suc k) x)"

definition fmt_pos :: "rat \<Rightarrow> string" where
  "fmt_pos x =
     (let (k, s, n) = shortest 16 1 x; ds = dec s
      in if int k \<le> n \<and> n \<le> 21 then ds @ replicate (nat (n - int k)) (CHR ''0'')
         else if 0 < n \<and> n \<le> 21 then take (nat n) ds @ ''.'' @ drop (nat n) ds
         else if - 6 < n \<and> n \<le> 0 then ''0.'' @ replicate (nat (- n)) (CHR ''0'') @ ds
         else (if k = 1 then ds else take 1 ds @ ''.'' @ drop 1 ds)
              @ ''e'' @ (if 0 < n - 1 then ''+'' else ''-'') @ dec \<bar>n - 1\<bar>)"

definition fmt :: "number \<Rightarrow> string" where
  "fmt a = (case a of
              NaN \<Rightarrow> ''NaN''
            | PInf \<Rightarrow> ''Infinity''
            | NInf \<Rightarrow> ''-Infinity''
            | Num x \<Rightarrow> if x = 0 then ''0''
                       else if x < 0 then ''-'' @ fmt_pos (- x) else fmt_pos x)"

text \<open>
  \<^verbatim>\<open>parseInt\<close> of a string of decimal digits: the double nearest to the integer
  they write.
\<close>

definition digit_val :: "char \<Rightarrow> int" where
  "digit_val c = (case map_of (zip ''0123456789'' [0, 1, 2, 3, 4, 5, 6, 7, 8, 9]) c of
                    Some d \<Rightarrow> d | None \<Rightarrow> 0)"

definition parseInt :: "string \<Rightarrow> number" where
  "parseInt ds = fl (of_int (foldl (\<lambda>n c. 10 * n + digit_val c) 0 ds))"

section \<open>The parser\<close>

record SeqMsg =
  msg_from :: string
  msg_to :: string
  msg_text :: string
  msg_arrow :: Arrow
  msg_step :: nat
  msg_displayStep :: "number option"

record Diagram =
  participants :: "Participant list"
  messages :: "SeqMsg list"
  title :: "string option"

definition PAL :: "string list" where
  "PAL = [''#ef4444'', ''#f97316'', ''#eab308'', ''#22c55e'', ''#14b8a6'', ''#06b6d4'',
          ''#3b82f6'', ''#8b5cf6'', ''#ec4899'', ''#f43f5e'', ''#84cc16'', ''#0891b2'']"

definition DEFAULT_DIAGRAM_TITLE :: string where
  "DEFAULT_DIAGRAM_TITLE = ''Sequence Diagram''"

subsection \<open>The patterns of \<^verbatim>\<open>parse\<close>\<close>

text \<open>\<^verbatim>\<open>/^(%%|sequenceDiagram|autonumber|---|```)/\<close>\<close>

definition re_skip :: re where
  "re_skip = Grp 1 (Alt (lit ''%%'') (Alt (lit ''sequenceDiagram'') (Alt (lit ''autonumber'')
               (Alt (lit ''---'') (lit ''```'')))))"

text \<open>\<^verbatim>\<open>/^title:\s*(.+)$/i\<close>\<close>

definition re_title :: re where
  "re_title = Seq (lit_i ''title:'') (Seq (Star (Chr is_space))
                (Seq (Grp 1 (Plus (Chr is_dot))) Eol))"

text \<open>\<^verbatim>\<open>/^participant\s+(\S+)(?:\s+as\s+(.+))?$/i\<close>\<close>

definition re_participant :: re where
  "re_participant =
     Seq (lit_i ''participant'') (Seq (Plus (Chr is_space)) (Seq (Grp 1 (Plus (Chr is_nonspace)))
       (Seq (Opt (Seq (Plus (Chr is_space)) (Seq (lit_i ''as'') (Seq (Plus (Chr is_space))
                    (Grp 2 (Plus (Chr is_dot)))))))
            Eol)))"

text \<open>\<^verbatim>\<open>/^(\w+)\s*(-->>|->>|-->|->)\s*(\w+):\s*(.*)$/\<close>\<close>

definition re_arrow :: re where
  "re_arrow = Alt (lit ''-->>'') (Alt (lit ''->>'') (Alt (lit ''-->'') (lit ''->'')))"

definition re_message :: re where
  "re_message =
     Seq (Grp 1 (Plus (Chr is_word))) (Seq (Star (Chr is_space)) (Seq (Grp 2 re_arrow)
       (Seq (Star (Chr is_space)) (Seq (Grp 3 (Plus (Chr is_word))) (Seq (lit '':'')
         (Seq (Star (Chr is_space)) (Seq (Grp 4 (Star (Chr is_dot))) Eol)))))))"

text \<open>\<^verbatim>\<open>/<br\s*\/?>/gi\<close>\<close>

definition re_br :: re where
  "re_br = Seq (lit_i ''<br'') (Seq (Star (Chr is_space)) (Seq (Opt (lit ''/'')) (lit ''>'')))"

text \<open>\<^verbatim>\<open>/^(\d+)\.\s+([\s\S]*)$/\<close>\<close>

definition re_numPfx :: re where
  "re_numPfx = Seq (Grp 1 (Plus (Chr is_digit))) (Seq (lit ''.'') (Seq (Plus (Chr is_space))
                 (Seq (Grp 2 (Star (Chr is_any))) Eol)))"

text \<open>\<^verbatim>\<open>/\[(.+?)\]/g\<close>, replaced by \<^verbatim>\<open>"($1)"\<close>\<close>

definition re_bracket :: re where
  "re_bracket = Seq (lit ''['') (Seq (Grp 1 (LazyPlus (Chr is_dot))) (lit '']''))"

definition paren_1 :: "captures \<Rightarrow> string" where
  "paren_1 c = ''('' @ grp c 1 @ '')''"

subsection \<open>\<^verbatim>\<open>parse\<close>\<close>

text \<open>
  The local variables of \<^verbatim>\<open>parse\<close> that its loop and the closure \<^verbatim>\<open>addP\<close>
  update: the arrays \<^verbatim>\<open>participants\<close> and \<^verbatim>\<open>messages\<close>, the \<^verbatim>\<open>Map\<close>, the
  counters \<^verbatim>\<open>step\<close> and \<^verbatim>\<open>ci\<close>, and \<^verbatim>\<open>title\<close>.
\<close>

record pstate =
  st_participants :: "Participant list"
  st_map :: "string \<rightharpoonup> Participant"
  st_messages :: "SeqMsg list"
  st_step :: nat
  st_ci :: nat
  st_title :: "string option"

definition init_pstate :: pstate where
  "init_pstate = \<lparr>st_participants = [], st_map = Map.empty, st_messages = [],
                   st_step = 0, st_ci = 0, st_title = None\<rparr>"

definition addP :: "string \<Rightarrow> string option \<Rightarrow> pstate \<Rightarrow> pstate" where
  "addP i lbl st =
     (if st_map st i = None then
        let p = \<lparr>p_id = i,
                 p_label = replace_all re_bracket paren_1 (case lbl of None \<Rightarrow> i | Some l \<Rightarrow> l),
                 p_color = PAL ! (st_ci st mod length PAL)\<rparr>
        in st\<lparr>st_participants := st_participants st @ [p],
               st_map := (st_map st)(i \<mapsto> p),
               st_ci := st_ci st + 1\<rparr>
      else st)"

text \<open>The body of \<^verbatim>\<open>if (mm) { ... }\<close>, from the four captures of the message pattern.\<close>

definition add_message :: "string \<Rightarrow> string \<Rightarrow> string \<Rightarrow> string \<Rightarrow> pstate \<Rightarrow> pstate" where
  "add_message fId arr tId rawText st0 =
     (let st = addP tId None (addP fId None st0);
          cleaned = trim (replace_all re_br (\<lambda>c. '' '') rawText);
          numPfx = re_match re_numPfx cleaned;
          m = \<lparr>msg_from = fId, msg_to = tId,
                 msg_text = (case numPfx of Some c \<Rightarrow> trim (grp c 2) | None \<Rightarrow> cleaned),
                 msg_arrow = (if prefix ''--'' arr then Dashed else Solid),
                 msg_step = st_step st + 1,
                 msg_displayStep = (case numPfx of Some c \<Rightarrow> Some (parseInt (grp c 1))
                                    | None \<Rightarrow> None)\<rparr>
      in st\<lparr>st_messages := st_messages st @ [m], st_step := st_step st + 1\<rparr>)"

text \<open>
  One turn of the loop \<^verbatim>\<open>for (const raw of code.split("\n"))\<close> tries the patterns
  on the trimmed line in a fixed order, each success ending the turn with
  \<^verbatim>\<open>continue\<close>. \<open>classify\<close> is that cascade: it says which branch the line takes
  and with which captures; \<open>parse_line\<close> is the branch's body.
\<close>

datatype line =
    Skip
  | Title string
  | ParticipantDecl string "string option"
  | Message string string string string
  | Unrecognized

definition classify :: "string \<Rightarrow> line" where
  "classify l =
     (if l = [] \<or> re_test re_skip l then Skip
      else case re_match re_title l of
        Some tm \<Rightarrow> Title (grp tm 1)
      | None \<Rightarrow>
       (case re_match re_participant l of
          Some pm \<Rightarrow> ParticipantDecl (grp pm 1) (pm 2)
        | None \<Rightarrow>
         (case re_match re_message l of
            Some mm \<Rightarrow> Message (grp mm 1) (grp mm 2) (grp mm 3) (grp mm 4)
          | None \<Rightarrow> Unrecognized)))"

definition parse_line :: "pstate \<Rightarrow> string \<Rightarrow> pstate" where
  "parse_line st raw =
     (case classify (trim raw) of
        Skip \<Rightarrow> st
      | Title t \<Rightarrow> st\<lparr>st_title := Some (trim t)\<rparr>
      | ParticipantDecl i lbl \<Rightarrow> addP i lbl st
      | Message fId arr tId rawText \<Rightarrow> add_message fId arr tId rawText st
      | Unrecognized \<Rightarrow> st)"

definition parse :: "string \<Rightarrow> Diagram" where
  "parse code =
     (let st = foldl parse_line init_pstate (split_lines code)
      in \<lparr>participants = st_participants st, messages = st_messages st, title = st_title st\<rparr>)"

section \<open>The SVG renderer\<close>

record Opts =
  coloredLines :: bool
  coloredNumbers :: bool
  coloredText :: bool
  font :: string
  lifelineDash :: string

text \<open>
  \<^verbatim>\<open>Layout\<close>. The source reads the margin as \<^verbatim>\<open>l.margin ?? 50\<close>, so a layout
  without margin is an input of the renderer, and the field is optional here.
\<close>

record Layout =
  stepHeight :: number
  boxWidth :: number
  spacing :: number
  textSize :: number
  margin :: "number option"

text \<open>\<^verbatim>\<open>esc\<close>: four passes of \<^verbatim>\<open>replace\<close>, the ampersand first.\<close>

definition esc :: "string \<Rightarrow> string" where
  \<open>esc s =
     replace_all (lit [CHR 0x22]) (\<lambda>c. ''&quot;'')
       (replace_all (lit ''>'') (\<lambda>c. ''&gt;'')
         (replace_all (lit ''<'') (\<lambda>c. ''&lt;'')
           (replace_all (lit ''&'') (\<lambda>c. ''&amp;'') s)))\<close>

text \<open>
  An entry of \<^verbatim>\<open>LIFELINE_DASH\<close>. The table is an object literal, so a key that
  is not its own but a property of \<^verbatim>\<open>Object.prototype\<close> reads as a function or
  object without \<^verbatim>\<open>da\<close>, \<^verbatim>\<open>cap\<close> and \<^verbatim>\<open>sw\<close>; it is not nullish, and the
  default \<^verbatim>\<open>LIFELINE_DASH.circle\<close> is not taken.
\<close>

record DashStyle =
  da :: "string option"
  cap :: "string option"
  sw :: "number option"

definition Object_prototype_keys :: "string list" where
  "Object_prototype_keys =
     [''constructor'', ''hasOwnProperty'', ''isPrototypeOf'', ''propertyIsEnumerable'',
      ''toLocaleString'', ''toString'', ''valueOf'', ''__proto__'', ''__defineGetter__'',
      ''__defineSetter__'', ''__lookupGetter__'', ''__lookupSetter__'']"

definition LIFELINE_DASH :: "string \<rightharpoonup> DashStyle" where
  "LIFELINE_DASH key =
     (if key = ''circle'' then Some \<lparr>da = Some ''0 8'', cap = Some ''round'', sw = Some (Num 3)\<rparr>
      else if key = ''dot'' then Some \<lparr>da = Some ''2 5'', cap = None, sw = None\<rparr>
      else if key = ''small'' then Some \<lparr>da = Some ''7 5'', cap = None, sw = None\<rparr>
      else if key = ''long'' then Some \<lparr>da = Some ''14 6'', cap = None, sw = None\<rparr>
      else if key \<in> set Object_prototype_keys then Some \<lparr>da = None, cap = None, sw = None\<rparr>
      else None)"

text \<open>A template literal prints \<^verbatim>\<open>undefined\<close> for a missing string.\<close>

definition str_or_undefined :: "string option \<Rightarrow> string" where
  "str_or_undefined v = (case v of None \<Rightarrow> ''undefined'' | Some s \<Rightarrow> s)"

subsection \<open>The constants and the geometry of \<^verbatim>\<open>buildSvg\<close>\<close>

text \<open>
  The local constants of \<^verbatim>\<open>buildSvg\<close>, as functions of what they are computed
  from. \<^verbatim>\<open>W\<close>, \<^verbatim>\<open>H\<close> and \<^verbatim>\<open>f\<close> are \<open>svgW\<close>, \<open>svgH\<close> and \<open>svgFont\<close>.
\<close>

definition BH :: "Layout \<Rightarrow> number" where
  "BH l = Math_max (Num 28) (Math_round (boxWidth l * lit_num (31 / 100)))"

definition BR :: number where "BR = Num 6"

definition AH :: number where "AH = Num 8"

definition SW :: number where "SW = Num 50"

definition SH :: number where "SH = Num 36"

definition TITLE_H :: number where "TITLE_H = Num 38"

definition TP :: number where "TP = Num 66"

definition BOT_PAD :: number where "BOT_PAD = TP"

definition VP :: number where "VP = Num 44"

definition LP :: "Layout \<Rightarrow> number" where
  "LP l = (case margin l of None \<Rightarrow> Num 50 | Some m \<Rightarrow> m)"

definition cx :: "Layout \<Rightarrow> nat \<Rightarrow> number" where
  "cx l i = LP l + boxWidth l / Num 2 + number_of_nat i * spacing l"

text \<open>\<^verbatim>\<open>new Map(ps.map((p, i) => [p.id, i]))\<close>: a later entry replaces an earlier one.\<close>

definition idx :: "Participant list \<Rightarrow> (string \<rightharpoonup> nat)" where
  "idx ps = foldl (\<lambda>m (k, i). m(k \<mapsto> i)) Map.empty (zip (map p_id ps) [0 ..< length ps])"

definition svgW :: "Diagram \<Rightarrow> Layout \<Rightarrow> number" where
  "svgW d l =
     Num 2 * LP l + (number_of_nat (length (participants d)) - Num 1) * spacing l + boxWidth l"

definition svgH :: "Diagram \<Rightarrow> Layout \<Rightarrow> number" where
  "svgH d l = TITLE_H + TP + BH l + VP + number_of_nat (length (messages d)) * stepHeight l
              + VP + BH l + BOT_PAD"

definition lt :: "Layout \<Rightarrow> number" where
  "lt l = TITLE_H + TP + BH l"

definition lb :: "Diagram \<Rightarrow> Layout \<Rightarrow> number" where
  "lb d l = svgH d l - BOT_PAD - BH l"

definition msgY :: "Layout \<Rightarrow> nat \<Rightarrow> number" where
  "msgY l s = TITLE_H + TP + BH l + VP + (number_of_nat s - Num 1) * stepHeight l"

definition svgFont :: "Opts \<Rightarrow> string" where
  "svgFont o' = [CHR 0x27] @ font o' @ [CHR 0x27] @ '', sans-serif''"

definition ld :: "Opts \<Rightarrow> DashStyle" where
  "ld o' = (case LIFELINE_DASH (lifelineDash o') of
             Some e \<Rightarrow> e
           | None \<Rightarrow> \<lparr>da = Some ''0 8'', cap = Some ''round'', sw = Some (Num 3)\<rparr>)"

definition lifelineSW :: "Opts \<Rightarrow> number" where
  "lifelineSW o' = (case sw (ld o') of None \<Rightarrow> Num (3 / 2) | Some w \<Rightarrow> w)"

definition lifelineCapAttr :: "Opts \<Rightarrow> string" where
  \<open>lifelineCapAttr o' =
     (case cap (ld o') of
        None \<Rightarrow> []
      | Some c \<Rightarrow> if c = [] then [] else '' stroke-linecap="'' @ c @ [CHR 0x22])\<close>

subsection \<open>The elements that \<^verbatim>\<open>buildSvg\<close> pushes\<close>

text \<open>
  Each definition is one template literal of the source, or the body of one
  \<^verbatim>\<open>forEach\<close>; the arguments are the variables the closure reads. A number in
  a template is printed by \<open>fmt\<close>.
\<close>

definition background :: "Diagram \<Rightarrow> Layout \<Rightarrow> string" where
  \<open>background d l =
     ''<rect width="'' @ fmt (svgW d l) @ ''" height="'' @ fmt (svgH d l) @ ''" fill="white"/>''\<close>

definition title_text :: "Diagram \<Rightarrow> Opts \<Rightarrow> Layout \<Rightarrow> string" where
  \<open>title_text d o' l =
     ''<text x="'' @ fmt (svgW d l / Num 2) @ ''" y="'' @ fmt (TITLE_H / Num 2 + Num 6)
     @ ''" text-anchor="middle" dominant-baseline="middle" font-family="'' @ svgFont o'
     @ ''" font-size="15" font-weight="700" fill="#1e293b">''
     @ esc (case title d of None \<Rightarrow> DEFAULT_DIAGRAM_TITLE | Some t \<Rightarrow> t) @ ''</text>''\<close>

definition lifeline :: "Diagram \<Rightarrow> Opts \<Rightarrow> Layout \<Rightarrow> Participant \<times> nat \<Rightarrow> string" where
  \<open>lifeline d o' l q =
     (let p = fst q; i = snd q;
          c = (if coloredLines o' then p_color p @ ''60'' else ''#d1d5db'')
      in ''<line x1="'' @ fmt (cx l i) @ ''" y1="'' @ fmt (lt l) @ ''" x2="'' @ fmt (cx l i)
         @ ''" y2="'' @ fmt (lb d l) @ ''" stroke="'' @ c @ ''" stroke-width="''
         @ fmt (lifelineSW o') @ ''" stroke-dasharray="'' @ str_or_undefined (da (ld o'))
         @ [CHR 0x22] @ lifelineCapAttr o' @ ''/>'')\<close>

text \<open>The participant box, drawn at \<open>y\<close>: above the rows and below them.\<close>

definition box :: "Opts \<Rightarrow> Layout \<Rightarrow> number \<Rightarrow> Participant \<times> nat \<Rightarrow> string list" where
  \<open>box o' l y q =
     (let p = fst q; i = snd q; x = cx l i - boxWidth l / Num 2
      in [''<rect x="'' @ fmt x @ ''" y="'' @ fmt y @ ''" width="'' @ fmt (boxWidth l)
          @ ''" height="'' @ fmt (BH l) @ ''" rx="'' @ fmt BR @ ''" fill="'' @ p_color p
          @ ''" stroke="#000000" stroke-width="2"/>'',
          ''<text x="'' @ fmt (cx l i) @ ''" y="'' @ fmt (y + BH l / Num 2 + Num 1)
          @ ''" text-anchor="middle" dominant-baseline="middle" font-family="'' @ svgFont o'
          @ ''" font-size="'' @ fmt (textSize l) @ ''" font-weight="700" fill="white">''
          @ esc (p_label p) @ ''</text>''])\<close>

definition dash_attr :: "SeqMsg \<Rightarrow> string" where
  \<open>dash_attr msg = (if msg_arrow msg = Dashed then '' stroke-dasharray="12 5"'' else [])\<close>

definition pillH :: "Layout \<Rightarrow> number" where
  "pillH l = textSize l + Num 8"

definition pillW :: "Layout \<Rightarrow> SeqMsg \<Rightarrow> number" where
  "pillW l msg =
     Math_max (Num 40)
       (number_of_nat (length (msg_text msg)) * (textSize l * lit_num (62 / 100)) + Num 12)"

text \<open>The branch \<^verbatim>\<open>fi === ti\<close>: the loop of a self-message and its label.\<close>

definition self_message ::
  "Opts \<Rightarrow> Layout \<Rightarrow> Participant \<Rightarrow> number \<Rightarrow> number \<Rightarrow> SeqMsg \<Rightarrow> string list" where
  \<open>self_message o' l fp fx y msg =
     (let lc = (if coloredLines o' then p_color fp else ''#374151'');
          tc = (if coloredText o' then p_color fp else ''#1e293b'')
      in [''<path d="M'' @ fmt fx @ '' '' @ fmt y @ '' H'' @ fmt (fx + SW) @ '' V''
          @ fmt (y + SH) @ '' H'' @ fmt fx @ ''" fill="none" stroke="'' @ lc
          @ ''" stroke-width="1.5"'' @ dash_attr msg @ ''/>'',
          ''<polygon points="'' @ fmt fx @ '','' @ fmt (y + SH) @ '' '' @ fmt (fx + AH) @ '',''
          @ fmt (y + SH - Num 5) @ '' '' @ fmt (fx + AH) @ '','' @ fmt (y + SH + Num 5)
          @ ''" fill="'' @ lc @ ''"/>'']
         @ (if coloredText o' then
              let pillX = fx + SW + Num 5; pillY = y + SH / Num 2 - pillH l / Num 2
              in [''<rect x="'' @ fmt pillX @ ''" y="'' @ fmt pillY @ ''" width="''
                  @ fmt (pillW l msg) @ ''" height="'' @ fmt (pillH l) @ ''" rx="''
                  @ fmt (pillH l / Num 2) @ ''" fill="'' @ p_color fp @ ''"/>'',
                  ''<text x="'' @ fmt (pillX + pillW l msg / Num 2) @ ''" y="''
                  @ fmt (pillY + pillH l / Num 2 + Num 1)
                  @ ''" text-anchor="middle" dominant-baseline="middle" font-family="''
                  @ svgFont o' @ ''" font-size="'' @ fmt (textSize l)
                  @ ''" font-weight="600" fill="#000000">'' @ esc (msg_text msg) @ ''</text>'']
            else
              [''<text x="'' @ fmt (fx + SW + Num 5) @ ''" y="'' @ fmt (y + SH / Num 2 + Num 1)
               @ ''" dominant-baseline="middle" font-family="'' @ svgFont o' @ ''" font-size="''
               @ fmt (textSize l) @ ''" fill="'' @ tc @ ''">'' @ esc (msg_text msg)
               @ ''</text>'']))\<close>

text \<open>The other branch: the arrow between two columns, its head and its label.\<close>

definition cross_message ::
  "Opts \<Rightarrow> Layout \<Rightarrow> Participant \<Rightarrow> number \<Rightarrow> number \<Rightarrow> number \<Rightarrow> SeqMsg \<Rightarrow> string list" where
  \<open>cross_message o' l fp fx tx y msg =
     (let lc = (if coloredLines o' then p_color fp else ''#374151'');
          tc = (if coloredText o' then p_color fp else ''#1e293b'');
          dir = (if fx < tx then Num 1 else Num (- 1));
          mid = (fx + tx) / Num 2
      in [''<line x1="'' @ fmt fx @ ''" y1="'' @ fmt y @ ''" x2="'' @ fmt (tx - dir * AH)
          @ ''" y2="'' @ fmt y @ ''" stroke="'' @ lc @ ''" stroke-width="1.5"''
          @ dash_attr msg @ ''/>'']
         @ (if msg_arrow msg = Solid then
              if dir = Num 1 then
                [''<polygon points="'' @ fmt tx @ '','' @ fmt y @ '' '' @ fmt (tx - AH) @ '',''
                 @ fmt (y - Num 5) @ '' '' @ fmt (tx - AH) @ '','' @ fmt (y + Num 5)
                 @ ''" fill="'' @ lc @ ''"/>'']
              else
                [''<polygon points="'' @ fmt tx @ '','' @ fmt y @ '' '' @ fmt (tx + AH) @ '',''
                 @ fmt (y - Num 5) @ '' '' @ fmt (tx + AH) @ '','' @ fmt (y + Num 5)
                 @ ''" fill="'' @ lc @ ''"/>'']
            else
              if dir = Num 1 then
                [''<polyline points="'' @ fmt (tx - AH) @ '','' @ fmt (y - Num 5) @ '' ''
                 @ fmt tx @ '','' @ fmt y @ '' '' @ fmt (tx - AH) @ '','' @ fmt (y + Num 5)
                 @ ''" fill="none" stroke="'' @ lc @ ''" stroke-width="1.5"/>'']
              else
                [''<polyline points="'' @ fmt (tx + AH) @ '','' @ fmt (y - Num 5) @ '' ''
                 @ fmt tx @ '','' @ fmt y @ '' '' @ fmt (tx + AH) @ '','' @ fmt (y + Num 5)
                 @ ''" fill="none" stroke="'' @ lc @ ''" stroke-width="1.5"/>''])
         @ (if coloredText o' then
              let pillY = y - pillH l - Num 10
              in [''<rect x="'' @ fmt (mid - pillW l msg / Num 2) @ ''" y="'' @ fmt pillY
                  @ ''" width="'' @ fmt (pillW l msg) @ ''" height="'' @ fmt (pillH l)
                  @ ''" rx="'' @ fmt (pillH l / Num 2) @ ''" fill="'' @ p_color fp @ ''"/>'',
                  ''<text x="'' @ fmt mid @ ''" y="'' @ fmt (pillY + pillH l / Num 2 + Num 1)
                  @ ''" text-anchor="middle" dominant-baseline="middle" font-family="''
                  @ svgFont o' @ ''" font-size="'' @ fmt (textSize l)
                  @ ''" font-weight="600" fill="#000000">'' @ esc (msg_text msg) @ ''</text>'']
            else
              [''<text x="'' @ fmt mid @ ''" y="'' @ fmt (y - Num 8)
               @ ''" text-anchor="middle" font-family="'' @ svgFont o' @ ''" font-size="''
               @ fmt (textSize l) @ ''" fill="'' @ tc @ ''">'' @ esc (msg_text msg)
               @ ''</text>'']))\<close>

text \<open>\<^verbatim>\<open>${msg.displayStep ?? msg.step}\<close>\<close>

definition numeral_text :: "SeqMsg \<Rightarrow> string" where
  "numeral_text msg =
     fmt (case msg_displayStep msg of None \<Rightarrow> number_of_nat (msg_step msg) | Some n \<Rightarrow> n)"

text \<open>The last statement of the loop body: \<^verbatim>\<open>if (o.coloredNumbers) { ... } else { ... }\<close>.\<close>

definition step_marker ::
  "Opts \<Rightarrow> Participant \<Rightarrow> number \<Rightarrow> number \<Rightarrow> SeqMsg \<Rightarrow> string list" where
  \<open>step_marker o' fp fx y msg =
     (if coloredNumbers o' then
        [''<circle cx="'' @ fmt fx @ ''" cy="'' @ fmt y @ ''" r="10" fill="'' @ p_color fp
         @ ''"/>'',
         ''<text x="'' @ fmt fx @ ''" y="'' @ fmt (y + Num 1)
         @ ''" text-anchor="middle" dominant-baseline="middle" font-family="'' @ svgFont o'
         @ ''" font-size="11" font-weight="700" fill="#000000">'' @ numeral_text msg
         @ ''</text>'',
         ''<circle cx="22" cy="'' @ fmt y @ ''" r="10" fill="'' @ p_color fp @ ''"/>'',
         ''<text x="22" y="'' @ fmt (y + Num 1)
         @ ''" text-anchor="middle" dominant-baseline="middle" font-family="'' @ svgFont o'
         @ ''" font-size="11" font-weight="700" fill="#000000">'' @ numeral_text msg
         @ ''</text>'']
      else
        [''<text x="'' @ fmt fx @ ''" y="'' @ fmt (y + Num 1)
         @ ''" text-anchor="middle" dominant-baseline="middle" font-family="'' @ svgFont o'
         @ ''" font-size="13" font-weight="700" fill="#000000">'' @ numeral_text msg
         @ ''</text>''])\<close>

text \<open>The body of \<^verbatim>\<open>ms.forEach(msg => { ... })\<close>.\<close>

definition message :: "Participant list \<Rightarrow> Opts \<Rightarrow> Layout \<Rightarrow> SeqMsg \<Rightarrow> string list" where
  "message ps o' l msg =
     (let fi = (case idx ps (msg_from msg) of None \<Rightarrow> 0 | Some i \<Rightarrow> i);
          ti = (case idx ps (msg_to msg) of None \<Rightarrow> 0 | Some i \<Rightarrow> i);
          y = msgY l (msg_step msg);
          fx = cx l fi; tx = cx l ti;
          fp = ps ! fi
      in (if fi = ti then self_message o' l fp fx y msg
          else cross_message o' l fp fx tx y msg)
         @ step_marker o' fp fx y msg)"

subsection \<open>\<^verbatim>\<open>buildSvg\<close>\<close>

definition parts :: "Diagram \<Rightarrow> Opts \<Rightarrow> Layout \<Rightarrow> string list" where
  "parts d o' l =
     (let ps = participants d; ips = zip ps [0 ..< length ps]
      in [background d l, title_text d o' l]
         @ map (lifeline d o' l) ips
         @ concat (map (box o' l (TITLE_H + TP)) ips)
         @ concat (map (message ps o' l) (messages d))
         @ concat (map (box o' l (svgH d l - BOT_PAD - BH l)) ips))"

definition buildSvg :: "Diagram \<Rightarrow> Opts \<Rightarrow> Layout \<Rightarrow> string" where
  \<open>buildSvg d o' l =
     (if participants d = [] then []
      else ''<svg xmlns="http://www.w3.org/2000/svg" width="'' @ fmt (svgW d l) @ ''" height="''
           @ fmt (svgH d l) @ ''" viewBox="0 0 '' @ fmt (svgW d l) @ '' '' @ fmt (svgH d l)
           @ ''">'' @ concat (parts d o' l) @ ''</svg>'')\<close>

definition DEFAULT_OPTS :: Opts where
  "DEFAULT_OPTS = \<lparr>coloredLines = True, coloredNumbers = True, coloredText = True,
                    font = ''Inter'', lifelineDash = ''circle''\<rparr>"

definition DEFAULT_LAYOUT :: Layout where
  "DEFAULT_LAYOUT = \<lparr>stepHeight = Num 42, boxWidth = Num 141, spacing = Num 250,
                      textSize = Num 13, margin = Some (Num 50)\<rparr>"

section \<open>Notions used in the statements\<close>

text \<open>
  The lines of a text as the loop of \<^verbatim>\<open>parse\<close> sees them, the participant ids a
  line refers to (a declaration names one, a message its source and its destination),
  and the endpoints of a message line.
\<close>

definition classified :: "string \<Rightarrow> line list" where
  "classified code = map (\<lambda>raw. classify (trim raw)) (split_lines code)"

fun line_ids :: "line \<Rightarrow> string list" where
  "line_ids (ParticipantDecl i lbl) = [i]"
| "line_ids (Message fId arr tId rawText) = [fId, tId]"
| "line_ids _ = []"

fun line_msgs :: "line \<Rightarrow> (string \<times> string) list" where
  "line_msgs (Message fId arr tId rawText) = [(fId, tId)]"
| "line_msgs _ = []"

text \<open>The order of first appearance: an element is appended when it is not there yet.\<close>

definition see :: "string list \<Rightarrow> string \<Rightarrow> string list" where
  "see acc x = (if x \<in> set acc then acc else acc @ [x])"

definition first_seen :: "string list \<Rightarrow> string list" where
  "first_seen xs = foldl see [] xs"

text \<open>Two invariants of the loop of \<^verbatim>\<open>parse\<close>.\<close>

definition ids_of :: "pstate \<Rightarrow> string list" where
  "ids_of st = map p_id (st_participants st)"

definition map_ok :: "pstate \<Rightarrow> bool" where
  "map_ok st \<longleftrightarrow> dom (st_map st) = set (ids_of st)"

definition steps_ok :: "pstate \<Rightarrow> bool" where
  "steps_ok st \<longleftrightarrow> st_step st = length (st_messages st)
     \<and> map msg_step (st_messages st) = [1 ..< Suc (length (st_messages st))]"

subsection \<open>What a pattern matches\<close>

text \<open>
  The words a pattern matches, without the order of the attempts, and the groups it
  can set: the matcher consumes a word of the pattern and changes no other group.
\<close>

inductive rmatch :: "re \<Rightarrow> string \<Rightarrow> bool" where
  rm_Chr: "P x \<Longrightarrow> rmatch (Chr P) [x]"
| rm_Eps: "rmatch Eps []"
| rm_Eol: "rmatch Eol []"
| rm_Seq: "rmatch a u \<Longrightarrow> rmatch b v \<Longrightarrow> rmatch (Seq a b) (u @ v)"
| rm_AltL: "rmatch a u \<Longrightarrow> rmatch (Alt a b) u"
| rm_AltR: "rmatch b u \<Longrightarrow> rmatch (Alt a b) u"
| rm_Star0: "rmatch (Star a) []"
| rm_StarS: "rmatch a u \<Longrightarrow> rmatch (Star a) v \<Longrightarrow> rmatch (Star a) (u @ v)"
| rm_Lazy0: "rmatch (LazyStar a) []"
| rm_LazyS: "rmatch a u \<Longrightarrow> rmatch (LazyStar a) v \<Longrightarrow> rmatch (LazyStar a) (u @ v)"
| rm_Grp: "rmatch a u \<Longrightarrow> rmatch (Grp i a) u"

inductive_cases rmatch_ChrE: "rmatch (Chr P) u"

inductive_cases rmatch_EpsE: "rmatch Eps u"

inductive_cases rmatch_SeqE: "rmatch (Seq a b) u"

inductive_cases rmatch_AltE: "rmatch (Alt a b) u"

fun grps :: "re \<Rightarrow> nat set" where
  "grps (Chr P) = {}"
| "grps Eps = {}"
| "grps Eol = {}"
| "grps (Seq a b) = grps a \<union> grps b"
| "grps (Alt a b) = grps a \<union> grps b"
| "grps (Star a) = grps a"
| "grps (LazyStar a) = grps a"
| "grps (Grp i a) = insert i (grps a)"

subsection \<open>Example inputs\<close>

definition code_blank :: string where
  "code_blank = ''sequenceDiagram\<newline>  %% nothing to draw\<newline>\<newline>   autonumber''"

definition code_done :: string where
  "code_done = ''A-->>B: 3. Done''"

definition code_numbered :: string where
  "code_numbered = ''A->>B: 3. Done\<newline>B-->>A: Back''"

definition code_renumbered :: string where
  "code_renumbered = ''A->>B: Done\<newline>B-->>A: 7. Back''"

definition code_redeclare_before :: string where
  "code_redeclare_before = ''A->>B: hi''"

definition code_redeclare_line :: string where
  "code_redeclare_line = ''participant A as Alice''"

definition code_redeclare_after :: string where
  "code_redeclare_after = ''B-->>A: ok''"

subsection \<open>Pieces of the markup\<close>

text \<open>
  The statements about the markup name the pieces of the templates of \<^verbatim>\<open>buildSvg\<close>
  that they are about. \<open>svg_open\<close> is the opening tag. \<open>circle_at\<close> and \<open>numeral_at\<close>
  are the two elements of a step marker, at the horizontal position \<open>xs\<close> (already
  printed) and the height \<open>y\<close>; \<open>numeral_open\<close> is the numeral's element up to the
  numeral. With the coloring of the step numbers on, a marker is the circle and the
  numeral; with it off, the numeral alone.
\<close>

definition svg_open :: "Diagram \<Rightarrow> Layout \<Rightarrow> string" where
  \<open>svg_open d l =
     ''<svg xmlns="http://www.w3.org/2000/svg" width="'' @ fmt (svgW d l) @ ''" height="''
     @ fmt (svgH d l) @ ''" viewBox="0 0 '' @ fmt (svgW d l) @ '' '' @ fmt (svgH d l) @ ''">''\<close>

definition circle_at :: "Participant \<Rightarrow> string \<Rightarrow> number \<Rightarrow> string" where
  \<open>circle_at fp xs y =
     ''<circle cx="'' @ xs @ ''" cy="'' @ fmt y @ ''" r="10" fill="'' @ p_color fp @ ''"/>''\<close>

definition numeral_open :: "Opts \<Rightarrow> string \<Rightarrow> number \<Rightarrow> string" where
  \<open>numeral_open o' xs y =
     ''<text x="'' @ xs @ ''" y="'' @ fmt (y + Num 1)
     @ ''" text-anchor="middle" dominant-baseline="middle" font-family="'' @ svgFont o'
     @ ''" font-size="'' @ (if coloredNumbers o' then ''11'' else ''13'')
     @ ''" font-weight="700" fill="#000000">''\<close>

definition numeral_at :: "Opts \<Rightarrow> string \<Rightarrow> number \<Rightarrow> string \<Rightarrow> string" where
  "numeral_at o' xs y n = numeral_open o' xs y @ n @ ''</text>''"

definition marker_at :: "Opts \<Rightarrow> Participant \<Rightarrow> string \<Rightarrow> number \<Rightarrow> string \<Rightarrow> string" where
  "marker_at o' fp xs y n =
     (if coloredNumbers o' then circle_at fp xs y @ numeral_at o' xs y n
      else numeral_at o' xs y n)"

text \<open>
  The index of the source participant of a message, \<^verbatim>\<open>idx.get(msg.from) ?? 0\<close>, and
  what \<^verbatim>\<open>buildSvg\<close> pushes for a message before its marker: the arrow and the text.
\<close>

definition src_index :: "Participant list \<Rightarrow> SeqMsg \<Rightarrow> nat" where
  "src_index ps msg = (case idx ps (msg_from msg) of None \<Rightarrow> 0 | Some i \<Rightarrow> i)"

definition message_arrow :: "Participant list \<Rightarrow> Opts \<Rightarrow> Layout \<Rightarrow> SeqMsg \<Rightarrow> string list" where
  "message_arrow ps o' l msg =
     (let fi = (case idx ps (msg_from msg) of None \<Rightarrow> 0 | Some i \<Rightarrow> i);
          ti = (case idx ps (msg_to msg) of None \<Rightarrow> 0 | Some i \<Rightarrow> i);
          y = msgY l (msg_step msg);
          fx = cx l fi; tx = cx l ti;
          fp = ps ! fi
      in if fi = ti then self_message o' l fp fx y msg
         else cross_message o' l fp fx tx y msg)"

subsection \<open>Escaped text\<close>

text \<open>
  What escaping does to one character, in the words of the specification; the
  characters that delimit tags and attribute values; and a diagram with its texts
  (title, labels, message texts) taken out.
\<close>

definition esc_char :: "char \<Rightarrow> string" where
  "esc_char c = (if c = CHR ''&'' then ''&amp;'' else if c = CHR ''<'' then ''&lt;''
                 else if c = CHR ''>'' then ''&gt;'' else if c = CHR 0x22 then ''&quot;''
                 else [c])"

definition markup_char :: "char \<Rightarrow> bool" where
  "markup_char c \<longleftrightarrow> c = CHR ''<'' \<or> c = CHR ''>'' \<or> c = CHR 0x22"

definition blank :: "Diagram \<Rightarrow> Diagram" where
  "blank d = \<lparr>participants = map (\<lambda>p. p\<lparr>p_label := []\<rparr>) (participants d),
              messages = map (\<lambda>m. m\<lparr>msg_text := []\<rparr>) (messages d),
              title = None\<rparr>"

subsection \<open>Example inputs for the renderer\<close>

definition msg_done :: SeqMsg where
  "msg_done = \<lparr>msg_from = ''A'', msg_to = ''B'', msg_text = ''Done'', msg_arrow = Dashed,
                msg_step = 1, msg_displayStep = Some (Num 3)\<rparr>"

definition plain_opts :: Opts where
  "plain_opts = DEFAULT_OPTS\<lparr>coloredNumbers := False, coloredText := False\<rparr>"

definition code_escaped :: string where
  \<open>code_escaped = ''title: a<b\<newline>participant A as "Al" & co\<newline>A->>B: x > y''\<close>

section \<open>The empty diagram\<close>

lemma parse_line_skip:
  "trim raw = [] \<or> re_test re_skip (trim raw) \<Longrightarrow> parse_line st raw = st"
  by (simp add: parse_line_def classify_def)

lemma foldl_parse_line_skip:
  "\<forall>raw\<in>set ls. trim raw = [] \<or> re_test re_skip (trim raw) \<Longrightarrow> foldl parse_line st ls = st"
  by (induction ls arbitrary: st) (simp_all add: parse_line_skip)

text \<open>
  Claim C4. The renderer returns the empty string exactly for the diagrams without
  participants, whatever the style options and the layout metrics; and a text whose
  lines are all blank or skipped (comments, the recognised directives, fences) parses
  to such a diagram, so it renders to the empty string.
\<close>

theorem buildSvg_empty_iff_no_participants:
  "(buildSvg d o' l = [] \<longleftrightarrow> participants d = []) \<and>
   ((\<forall>raw\<in>set (split_lines code). trim raw = [] \<or> re_test re_skip (trim raw)) \<longrightarrow>
      participants (parse code) = [] \<and> buildSvg (parse code) o' l = [])"
proof -
  have a: "buildSvg d o' l = [] \<longleftrightarrow> participants d = []"
    by (simp add: buildSvg_def)
  have b: "participants (parse code) = [] \<and> buildSvg (parse code) o' l = []"
    if "\<forall>raw\<in>set (split_lines code). trim raw = [] \<or> re_test re_skip (trim raw)"
  proof -
    have "participants (parse code) = []"
      using foldl_parse_line_skip[OF that] by (simp add: parse_def init_pstate_def)
    then show ?thesis by (simp add: buildSvg_def)
  qed
  from a b show ?thesis by blast
qed

lemma code_blank_skipped:
  "\<forall>raw\<in>set (split_lines code_blank). trim raw = [] \<or> re_test re_skip (trim raw)"
  by code_simp

theorem buildSvg_empty_witness:
  "list_all (\<lambda>raw. trim raw = [] \<or> re_test re_skip (trim raw)) (split_lines code_blank)
   \<and> participants (parse code_blank) = []
   \<and> buildSvg (parse code_blank) DEFAULT_OPTS DEFAULT_LAYOUT = []"
  using buildSvg_empty_iff_no_participants[of _ _ _ code_blank] code_blank_skipped
  by (simp add: list_all_iff)

section \<open>The size of the canvas\<close>

text \<open>
  Claim C5. For a diagram with \<open>N \<ge> 1\<close> participants and \<open>M\<close> messages the markup
  opens with the \<^verbatim>\<open>svg\<close> tag whose width is
  \<open>2 \<times> margin + (N - 1) \<times> spacing + boxWidth\<close> and whose height is
  \<open>38 + 66 + BH + 44 + M \<times> stepHeight + 44 + BH + 66\<close> (title band, top padding, box,
  vertical padding, rows, vertical padding, box, bottom padding), where the box
  height \<open>BH\<close> is \<open>boxWidth \<times> 0.31\<close> rounded and not below 28. The sums and products
  are those of JavaScript numbers, and an absent margin counts as 50.
\<close>

theorem buildSvg_canvas_size:
  assumes "participants d \<noteq> []"
  shows \<open>\<exists>rest. buildSvg d o' l =
     ''<svg xmlns="http://www.w3.org/2000/svg" width="''
     @ fmt (Num 2 * (case margin l of None \<Rightarrow> Num 50 | Some m \<Rightarrow> m)
            + (number_of_nat (length (participants d)) - Num 1) * spacing l + boxWidth l)
     @ ''" height="''
     @ fmt (Num 38 + Num 66 + Math_max (Num 28) (Math_round (boxWidth l * lit_num (31 / 100)))
            + Num 44 + number_of_nat (length (messages d)) * stepHeight l + Num 44
            + Math_max (Num 28) (Math_round (boxWidth l * lit_num (31 / 100))) + Num 66)
     @ ''" viewBox="0 0 '' @ rest\<close>
  using assms
  by (simp add: buildSvg_def svgW_def svgH_def LP_def BH_def TITLE_H_def TP_def VP_def BOT_PAD_def)

theorem buildSvg_canvas_size_witness:
  \<open>participants (parse ''A->>B: Hello'') \<noteq> [] \<and>
   (\<exists>rest. buildSvg (parse ''A->>B: Hello'') DEFAULT_OPTS DEFAULT_LAYOUT =
     ''<svg xmlns="http://www.w3.org/2000/svg" width="''
     @ fmt (Num 2 * (case margin DEFAULT_LAYOUT of None \<Rightarrow> Num 50 | Some m \<Rightarrow> m)
            + (number_of_nat (length (participants (parse ''A->>B: Hello''))) - Num 1)
              * spacing DEFAULT_LAYOUT + boxWidth DEFAULT_LAYOUT)
     @ ''" height="''
     @ fmt (Num 38 + Num 66
            + Math_max (Num 28) (Math_round (boxWidth DEFAULT_LAYOUT * lit_num (31 / 100)))
            + Num 44
            + number_of_nat (length (messages (parse ''A->>B: Hello''))) * stepHeight DEFAULT_LAYOUT
            + Num 44
            + Math_max (Num 28) (Math_round (boxWidth DEFAULT_LAYOUT * lit_num (31 / 100)))
            + Num 66)
     @ ''" viewBox="0 0 '' @ rest)\<close>
proof -
  have ne: "participants (parse ''A->>B: Hello'') \<noteq> []"
    by code_simp
  from ne buildSvg_canvas_size[OF ne, of DEFAULT_OPTS DEFAULT_LAYOUT] show ?thesis
    by blast
qed

section \<open>Participants in the order of first appearance\<close>

lemma addP_ids: "map_ok st \<Longrightarrow> ids_of (addP i lbl st) = see (ids_of st) i"
  by (auto simp: addP_def map_ok_def ids_of_def see_def Let_def)

lemma addP_map_ok: "map_ok st \<Longrightarrow> map_ok (addP i lbl st)"
  by (auto simp: addP_def map_ok_def ids_of_def Let_def)

lemma add_message_ids:
  "map_ok st \<Longrightarrow> ids_of (add_message fId arr tId rawText st) = see (see (ids_of st) fId) tId"
  using addP_ids[of "addP fId None st" tId None] addP_ids[of st fId None]
    addP_map_ok[of st fId None]
  by (simp add: add_message_def Let_def ids_of_def)

lemma add_message_map_ok: "map_ok st \<Longrightarrow> map_ok (add_message fId arr tId rawText st)"
  using addP_map_ok[of "addP fId None st" tId None] addP_map_ok[of st fId None]
  by (simp add: add_message_def Let_def map_ok_def ids_of_def)

lemma title_ids: "ids_of (st\<lparr>st_title := t\<rparr>) = ids_of st"
  by (simp add: ids_of_def)

lemma title_map_ok: "map_ok (st\<lparr>st_title := t\<rparr>) = map_ok st"
  by (simp add: map_ok_def ids_of_def)

lemma parse_line_ids:
  "map_ok st \<Longrightarrow>
   ids_of (parse_line st raw) = foldl see (ids_of st) (line_ids (classify (trim raw)))"
  by (cases "classify (trim raw)")
     (simp_all add: parse_line_def addP_ids add_message_ids title_ids)

lemma parse_line_map_ok: "map_ok st \<Longrightarrow> map_ok (parse_line st raw)"
  by (cases "classify (trim raw)")
     (simp_all add: parse_line_def addP_map_ok add_message_map_ok title_map_ok)

lemma foldl_parse_line_ids:
  "map_ok st \<Longrightarrow>
   ids_of (foldl parse_line st ls) =
     foldl see (ids_of st) (concat (map (\<lambda>raw. line_ids (classify (trim raw))) ls))
   \<and> map_ok (foldl parse_line st ls)"
  by (induction ls arbitrary: st) (simp_all add: parse_line_ids parse_line_map_ok)

lemma foldl_see_set: "set (foldl see acc xs) = set acc \<union> set xs"
  by (induction xs arbitrary: acc) (auto simp: see_def)

lemma foldl_see_distinct: "distinct acc \<Longrightarrow> distinct (foldl see acc xs)"
  by (induction xs arbitrary: acc) (auto simp: see_def)

lemma map_ok_init: "map_ok init_pstate"
  by (simp add: map_ok_def init_pstate_def ids_of_def)

lemma parse_ids:
  "map p_id (participants (parse code)) = first_seen (concat (map line_ids (classified code)))"
proof -
  have "map p_id (participants (parse code))
          = ids_of (foldl parse_line init_pstate (split_lines code))"
    by (simp add: parse_def Let_def ids_of_def)
  also have "\<dots> = first_seen (concat (map line_ids (classified code)))"
    using foldl_parse_line_ids[OF map_ok_init, of "split_lines code"]
    by (simp add: first_seen_def classified_def ids_of_def init_pstate_def comp_def)
  finally show ?thesis .
qed

text \<open>
  Claim C3. The ids of the participant list of \<open>parse code\<close> are the ids that the
  lines of the text refer to - the declared id of a participant line, the source
  and the destination of a message line - each once, in the order in which they
  first appear.
\<close>

theorem parse_participants_first_seen:
  "map p_id (participants (parse code)) = first_seen (concat (map line_ids (classified code)))
   \<and> distinct (map p_id (participants (parse code)))
   \<and> set (map p_id (participants (parse code))) = set (concat (map line_ids (classified code)))"
  unfolding parse_ids by (simp add: first_seen_def foldl_see_set foldl_see_distinct)

section \<open>Sequence indices\<close>

lemma addP_messages:
  "st_messages (addP i lbl st) = st_messages st \<and> st_step (addP i lbl st) = st_step st"
  by (simp add: addP_def Let_def)

lemma add_message_messages:
  "\<exists>m. st_messages (add_message fId arr tId rawText st) = st_messages st @ [m]
     \<and> msg_step m = st_step st + 1 \<and> msg_from m = fId \<and> msg_to m = tId
     \<and> st_step (add_message fId arr tId rawText st) = st_step st + 1"
  by (simp add: add_message_def Let_def addP_messages)

lemma parse_line_steps:
  "steps_ok st \<Longrightarrow> steps_ok (parse_line st raw)
     \<and> map (\<lambda>m. (msg_from m, msg_to m)) (st_messages (parse_line st raw)) =
         map (\<lambda>m. (msg_from m, msg_to m)) (st_messages st) @ line_msgs (classify (trim raw))"
proof (cases "classify (trim raw)")
  case (Message fId arr tId rawText)
  obtain m where m: "st_messages (add_message fId arr tId rawText st) = st_messages st @ [m]"
      "msg_step m = st_step st + 1" "msg_from m = fId" "msg_to m = tId"
      "st_step (add_message fId arr tId rawText st) = st_step st + 1"
    using add_message_messages by blast
  assume "steps_ok st"
  with m Message show ?thesis
    by (simp add: parse_line_def steps_ok_def)
qed (simp_all add: parse_line_def steps_ok_def addP_messages)

lemma foldl_parse_line_steps:
  "steps_ok st \<Longrightarrow> steps_ok (foldl parse_line st ls)
     \<and> map (\<lambda>m. (msg_from m, msg_to m)) (st_messages (foldl parse_line st ls)) =
         map (\<lambda>m. (msg_from m, msg_to m)) (st_messages st)
         @ concat (map (\<lambda>raw. line_msgs (classify (trim raw))) ls)"
proof (induction ls arbitrary: st)
  case Nil
  then show ?case by simp
next
  case (Cons raw ls)
  from parse_line_steps[OF Cons.prems, of raw] Cons.IH[of "parse_line st raw"]
  show ?case by simp
qed

text \<open>
  Claim C2. The messages of \<open>parse code\<close> are the recognised message lines of the
  text in their order (same sources and destinations), and their sequence indices
  are \<open>1, 2, ..., N\<close> in that order. The index of a message is its position: two
  texts whose lines have the same message endpoints get the same indices, whatever
  their message texts and the display-step prefixes in them.
\<close>

theorem parse_steps_dense:
  "map msg_step (messages (parse code)) = [1 ..< Suc (length (messages (parse code)))]
   \<and> map (\<lambda>m. (msg_from m, msg_to m)) (messages (parse code))
       = concat (map line_msgs (classified code))
   \<and> (map line_msgs (classified code') = map line_msgs (classified code) \<longrightarrow>
        map msg_step (messages (parse code')) = map msg_step (messages (parse code)))"
proof -
  have ok: "steps_ok init_pstate" by (simp add: steps_ok_def init_pstate_def)
  have a: "map msg_step (messages (parse c)) = [1 ..< Suc (length (messages (parse c)))]
      \<and> map (\<lambda>m. (msg_from m, msg_to m)) (messages (parse c))
          = concat (map line_msgs (classified c))" for c
    using foldl_parse_line_steps[OF ok, of "split_lines c"]
    by (simp add: parse_def Let_def steps_ok_def classified_def init_pstate_def comp_def)
  have b: "length (messages (parse c)) = length (concat (map line_msgs (classified c)))" for c
    using a[of c] by (metis length_map)
  have "map msg_step (messages (parse code')) = map msg_step (messages (parse code))"
    if "map line_msgs (classified code') = map line_msgs (classified code)"
    using a[of code] a[of code'] b[of code] b[of code'] that by simp
  with a[of code] show ?thesis by blast
qed

lemma code_numbered_lines:
  "map line_msgs (classified code_renumbered) = map line_msgs (classified code_numbered)"
  by code_simp

lemma code_numbered_steps:
  "map msg_step (messages (parse code_numbered)) = [1, 2]
   \<and> map msg_displayStep (messages (parse code_numbered)) = [Some (Num 3), None]
   \<and> map msg_displayStep (messages (parse code_renumbered)) = [None, Some (Num 7)]"
  by code_simp

theorem parse_steps_dense_witness:
  "map line_msgs (classified code_renumbered) = map line_msgs (classified code_numbered)
   \<and> map msg_displayStep (messages (parse code_numbered)) = [Some (Num 3), None]
   \<and> map msg_displayStep (messages (parse code_renumbered)) = [None, Some (Num 7)]
   \<and> map msg_step (messages (parse code_numbered)) = [1, 2]
   \<and> map msg_step (messages (parse code_renumbered)) = [1, 2]"
  using parse_steps_dense[of code_numbered code_renumbered] code_numbered_lines
    code_numbered_steps
  by simp

section \<open>The matcher and the words of a pattern\<close>

lemma in_ms_Star:
  "t \<in> set (ms (Star a) (s, c)) \<longleftrightarrow>
     t = (s, c) \<or> (\<exists>m\<in>set (ms a (s, c)). length (fst m) < length s \<and> t \<in> set (ms (Star a) m))"
  by (subst ms.simps) (auto simp del: ms.simps)

lemma in_ms_LazyStar:
  "t \<in> set (ms (LazyStar a) (s, c)) \<longleftrightarrow>
     t = (s, c) \<or> (\<exists>m\<in>set (ms a (s, c)). length (fst m) < length s \<and> t \<in> set (ms (LazyStar a) m))"
  by (subst ms.simps) (auto simp del: ms.simps)

lemma in_ms_Seq:
  "t \<in> set (ms (Seq a b) x) \<longleftrightarrow> (\<exists>m\<in>set (ms a x). t \<in> set (ms b m))"
  by (cases x) (simp del: ms.simps add: ms.simps(4))

lemma in_ms_Grp:
  "t \<in> set (ms (Grp i a) (s, c)) \<longleftrightarrow>
     (\<exists>m\<in>set (ms a (s, c)). t = (fst m, (snd m)(i \<mapsto> take (length s - length (fst m)) s)))"
  by (simp del: ms.simps add: ms.simps(8) image_iff)

lemma ms_sound:
  "t \<in> set (ms r (s, c)) \<Longrightarrow>
     (\<exists>u. s = u @ fst t \<and> rmatch r u) \<and> (\<forall>j. j \<notin> grps r \<longrightarrow> snd t j = c j)"
proof (induction r "(s, c)" arbitrary: s c t rule: ms.induct)
  case (1 P s c)
  then show ?case by (auto split: list.splits if_splits intro: rmatch.intros)
next
  case (2 s c)
  then show ?case by (auto intro: rmatch.intros)
next
  case (3 s c)
  then show ?case by (auto split: if_splits intro: rmatch.intros)
next
  case (4 a b s c)
  from "4.prems" obtain s1 c1 where m: "(s1, c1) \<in> set (ms a (s, c))" "t \<in> set (ms b (s1, c1))"
    unfolding in_ms_Seq by (metis prod.collapse)
  from "4.hyps"(1)[OF m(1)] obtain u where u: "s = u @ s1" "rmatch a u"
    and cu: "\<forall>j. j \<notin> grps a \<longrightarrow> c1 j = c j" by auto
  from "4.hyps"(2)[OF m(1) m(2)]
  obtain v where v: "s1 = v @ fst t" "rmatch b v"
    and cv: "\<forall>j. j \<notin> grps b \<longrightarrow> snd t j = c1 j" by auto
  have "s = (u @ v) @ fst t" using u v by simp
  moreover have "rmatch (Seq a b) (u @ v)" using u v by (simp add: rm_Seq)
  moreover have "\<forall>j. j \<notin> grps (Seq a b) \<longrightarrow> snd t j = c j" using cu cv by simp
  ultimately show ?case by blast
next
  case (5 a b s c)
  from "5.prems" have "t \<in> set (ms a (s, c)) \<or> t \<in> set (ms b (s, c))" by simp
  then show ?case
  proof
    assume "t \<in> set (ms a (s, c))"
    from "5.hyps"(1)[OF this] show ?thesis by (auto intro: rm_AltL)
  next
    assume "t \<in> set (ms b (s, c))"
    from "5.hyps"(2)[OF this] show ?thesis by (auto intro: rm_AltR)
  qed
next
  case (6 a s c)
  from "6.prems" consider "t = (s, c)"
    | s1 c1 where "(s1, c1) \<in> set (ms a (s, c))" "length s1 < length s"
        "t \<in> set (ms (Star a) (s1, c1))"
    unfolding in_ms_Star[of t a s c] by (metis prod.collapse)
  then show ?case
  proof cases
    case 1
    then show ?thesis by (simp add: rm_Star0)
  next
    case 2
    from "6.hyps"(1)[OF 2(1)] obtain u where u: "s = u @ s1" "rmatch a u"
      and cu: "\<forall>j. j \<notin> grps a \<longrightarrow> c1 j = c j" by auto
    from 2(1,2)
    have "(s1, c1) \<in> set (filter (\<lambda>t. length (fst t) < length s) (ms a (s, c)))" by simp
    from "6.hyps"(2)[OF this 2(3)]
    obtain v where v: "s1 = v @ fst t" "rmatch (Star a) v"
      and cv: "\<forall>j. j \<notin> grps (Star a) \<longrightarrow> snd t j = c1 j" by auto
    have "s = (u @ v) @ fst t" using u v by simp
    moreover have "rmatch (Star a) (u @ v)" using u v by (simp add: rm_StarS)
    moreover have "\<forall>j. j \<notin> grps (Star a) \<longrightarrow> snd t j = c j" using cu cv by simp
    ultimately show ?thesis by blast
  qed
next
  case (7 a s c)
  from "7.prems" consider "t = (s, c)"
    | s1 c1 where "(s1, c1) \<in> set (ms a (s, c))" "length s1 < length s"
        "t \<in> set (ms (LazyStar a) (s1, c1))"
    unfolding in_ms_LazyStar[of t a s c] by (metis prod.collapse)
  then show ?case
  proof cases
    case 1
    then show ?thesis by (simp add: rm_Lazy0)
  next
    case 2
    from "7.hyps"(1)[OF 2(1)] obtain u where u: "s = u @ s1" "rmatch a u"
      and cu: "\<forall>j. j \<notin> grps a \<longrightarrow> c1 j = c j" by auto
    from 2(1,2)
    have "(s1, c1) \<in> set (filter (\<lambda>t. length (fst t) < length s) (ms a (s, c)))" by simp
    from "7.hyps"(2)[OF this 2(3)]
    obtain v where v: "s1 = v @ fst t" "rmatch (LazyStar a) v"
      and cv: "\<forall>j. j \<notin> grps (LazyStar a) \<longrightarrow> snd t j = c1 j" by auto
    have "s = (u @ v) @ fst t" using u v by simp
    moreover have "rmatch (LazyStar a) (u @ v)" using u v by (simp add: rm_LazyS)
    moreover have "\<forall>j. j \<notin> grps (LazyStar a) \<longrightarrow> snd t j = c j" using cu cv by simp
    ultimately show ?thesis by blast
  qed
next
  case (8 i a s c)
  from "8.prems" obtain m where m: "m \<in> set (ms a (s, c))"
    "t = (fst m, (snd m)(i \<mapsto> take (length s - length (fst m)) s))"
    unfolding in_ms_Grp by blast
  from "8.hyps"[OF m(1)] obtain u where u: "s = u @ fst m" "rmatch a u"
    and cu: "\<forall>j. j \<notin> grps a \<longrightarrow> snd m j = c j" by blast
  show ?case using m(2) u cu by (auto intro: rm_Grp)
qed

lemma ms_Grp_capture:
  "t \<in> set (ms (Grp i r) (s, c)) \<Longrightarrow> \<exists>u. s = u @ fst t \<and> rmatch r u \<and> snd t i = Some u"
proof -
  assume "t \<in> set (ms (Grp i r) (s, c))"
  then obtain m where m: "m \<in> set (ms r (s, c))"
    "t = (fst m, (snd m)(i \<mapsto> take (length s - length (fst m)) s))"
    unfolding in_ms_Grp by blast
  from ms_sound[OF m(1)] obtain u where "s = u @ fst m" "rmatch r u" by blast
  with m show ?thesis by auto
qed

lemma rmatch_lit: "rmatch (lit w) u \<Longrightarrow> u = w"
proof (induction w arbitrary: u)
  case Nil
  then show ?case by (auto elim: rmatch_EpsE)
next
  case (Cons x w)
  from Cons.prems obtain a b where "u = a @ b" "rmatch (Chr (\<lambda>c. c = x)) a" "rmatch (lit w) b"
    by (auto elim: rmatch_SeqE)
  with Cons.IH show ?case by (auto elim: rmatch_ChrE)
qed

lemma rmatch_arrow:
  "rmatch re_arrow u \<Longrightarrow> u = ''-->>'' \<or> u = ''->>'' \<or> u = ''-->'' \<or> u = ''->''"
  unfolding re_arrow_def by (blast elim: rmatch_AltE dest: rmatch_lit)

lemma re_match_in_ms: "re_match r s = Some c \<Longrightarrow> \<exists>s'. (s', c) \<in> set (ms r (s, Map.empty))"
  by (auto simp: re_match_def simp del: ms.simps split: list.splits)

lemma message_arrow_token:
  assumes "re_match re_message l = Some mm"
  shows "grp mm 2 \<in> set [''-->>'', ''->>'', ''-->'', ''->'']"
proof -
  from re_match_in_ms[OF assms]
  obtain s' where t: "(s', mm) \<in> set (ms re_message (l, Map.empty))" ..
  define rest where "rest = Seq (Star (Chr is_space)) (Seq (Grp 3 (Plus (Chr is_word)))
    (Seq (lit '':'') (Seq (Star (Chr is_space)) (Seq (Grp 4 (Star (Chr is_dot))) Eol))))"
  have rm: "re_message =
      Seq (Grp 1 (Plus (Chr is_word))) (Seq (Star (Chr is_space)) (Seq (Grp 2 re_arrow) rest))"
    by (simp add: re_message_def rest_def)
  from t obtain m2 m3 where
    "m3 \<in> set (ms (Grp 2 re_arrow) m2)" and r: "(s', mm) \<in> set (ms rest m3)"
    unfolding rm in_ms_Seq by blast
  then obtain u where u: "rmatch re_arrow u" "snd m3 2 = Some u"
    using ms_Grp_capture[of m3 2 re_arrow "fst m2" "snd m2"] by auto
  have "2 \<notin> grps rest" by (simp add: rest_def Plus_def)
  with ms_sound[of "(s', mm)" rest "fst m3" "snd m3"] r have "mm 2 = snd m3 2" by simp
  with u rmatch_arrow[OF u(1)] show ?thesis by (auto simp: grp_def)
qed

section \<open>The arrow of a message\<close>

lemma classify_MessageD:
  "classify l = Message fId arr tId rawText \<Longrightarrow>
   \<exists>mm. re_match re_message l = Some mm \<and> arr = grp mm 2"
  by (auto simp: classify_def split: if_splits option.splits)

lemma add_message_arrow:
  "\<exists>m. st_messages (add_message fId arr tId rawText st) = st_messages st @ [m]
     \<and> msg_arrow m = (if prefix ''--'' arr then Dashed else Solid)"
  by (simp add: add_message_def Let_def addP_messages)

lemma add_message_cong_arrow:
  "(prefix ''--'' arr' \<longleftrightarrow> prefix ''--'' arr) \<Longrightarrow>
   add_message fId arr' tId rawText st = add_message fId arr tId rawText st"
  by (simp add: add_message_def Let_def)

lemma parse_code_done:
  "parse code_done =
     \<lparr>participants = [\<lparr>p_id = ''A'', p_label = ''A'', p_color = ''#ef4444''\<rparr>,
                      \<lparr>p_id = ''B'', p_label = ''B'', p_color = ''#f97316''\<rparr>],
      messages = [\<lparr>msg_from = ''A'', msg_to = ''B'', msg_text = ''Done'', msg_arrow = Dashed,
                   msg_step = 1, msg_displayStep = Some (Num 3)\<rparr>],
      title = None\<rparr>"
  by code_simp

text \<open>
  Claim C7. When a line is recognised as a message, its arrow token is one of
  \<^verbatim>\<open>-->>\<close>, \<^verbatim>\<open>->>\<close>, \<^verbatim>\<open>-->\<close>, \<^verbatim>\<open>->\<close>; the message that the line appends is
  dashed for \<^verbatim>\<open>-->>\<close> and \<^verbatim>\<open>-->\<close> and solid for \<^verbatim>\<open>->>\<close> and \<^verbatim>\<open>->\<close>; and the
  token enters the new state through its double-dash prefix only, so any token with
  the same prefix (one head or two) gives the same state. The text
  \<^verbatim>\<open>A-->>B: 3. Done\<close> parses to the participants A and B and one message, dashed,
  with text \<^verbatim>\<open>Done\<close>, sequence index 1 and display step 3.
\<close>

theorem message_arrow_by_dash:
  "(classify (trim raw) = Message fId arr tId rawText \<longrightarrow>
      arr \<in> set [''-->>'', ''->>'', ''-->'', ''->'']
      \<and> (\<exists>m. st_messages (parse_line st raw) = st_messages st @ [m]
             \<and> msg_arrow m = (if arr = ''-->>'' \<or> arr = ''-->'' then Dashed else Solid))
      \<and> (\<forall>arr'. prefix ''--'' arr' = prefix ''--'' arr \<longrightarrow>
             add_message fId arr' tId rawText st = parse_line st raw))
   \<and> parse ''A-->>B: 3. Done'' =
     \<lparr>participants = [\<lparr>p_id = ''A'', p_label = ''A'', p_color = ''#ef4444''\<rparr>,
                      \<lparr>p_id = ''B'', p_label = ''B'', p_color = ''#f97316''\<rparr>],
      messages = [\<lparr>msg_from = ''A'', msg_to = ''B'', msg_text = ''Done'', msg_arrow = Dashed,
                   msg_step = 1, msg_displayStep = Some (Num 3)\<rparr>],
      title = None\<rparr>"
proof -
  have a: "arr \<in> set [''-->>'', ''->>'', ''-->'', ''->'']
      \<and> (\<exists>m. st_messages (parse_line st raw) = st_messages st @ [m]
             \<and> msg_arrow m = (if arr = ''-->>'' \<or> arr = ''-->'' then Dashed else Solid))
      \<and> (\<forall>arr'. prefix ''--'' arr' = prefix ''--'' arr \<longrightarrow>
             add_message fId arr' tId rawText st = parse_line st raw)"
    if c: "classify (trim raw) = Message fId arr tId rawText"
  proof -
    from classify_MessageD[OF c] message_arrow_token
    have tok: "arr \<in> set [''-->>'', ''->>'', ''-->'', ''->'']" by blast
    have pl: "parse_line st raw = add_message fId arr tId rawText st"
      using c by (simp add: parse_line_def)
    from tok have d: "prefix ''--'' arr \<longleftrightarrow> arr = ''-->>'' \<or> arr = ''-->''" by auto
    from add_message_arrow[of fId arr tId rawText st]
    have ex: "\<exists>m. st_messages (parse_line st raw) = st_messages st @ [m]
             \<and> msg_arrow m = (if arr = ''-->>'' \<or> arr = ''-->'' then Dashed else Solid)"
      unfolding pl d .
    have cong: "\<forall>arr'. prefix ''--'' arr' = prefix ''--'' arr \<longrightarrow>
             add_message fId arr' tId rawText st = parse_line st raw"
    proof (intro allI impI)
      fix arr'
      assume "prefix ''--'' arr' = prefix ''--'' arr"
      then show "add_message fId arr' tId rawText st = parse_line st raw"
        unfolding pl by (rule add_message_cong_arrow)
    qed
    from tok ex cong show ?thesis by blast
  qed
  from a parse_code_done show ?thesis unfolding code_done_def by blast
qed

lemma code_done_classified:
  "classify (trim code_done) = Message ''A'' ''-->>'' ''B'' ''3. Done''"
  by code_simp

theorem message_arrow_by_dash_witness:
  "classify (trim code_done) = Message ''A'' ''-->>'' ''B'' ''3. Done''
   \<and> (\<exists>m. st_messages (parse_line init_pstate code_done) = st_messages init_pstate @ [m]
          \<and> msg_arrow m = Dashed)
   \<and> add_message ''A'' ''-->'' ''B'' ''3. Done'' init_pstate = parse_line init_pstate code_done"
  using message_arrow_by_dash[of code_done "''A''" "''-->>''" "''B''" "''3. Done''" init_pstate]
    code_done_classified
  by simp

section \<open>Declaring a participant again\<close>

lemma split_lines_ne: "split_lines s \<noteq> []"
  by (induction s) (auto split: list.splits)

lemma split_lines_append:
  "split_lines (a @ CHR 0x0A # b) = split_lines a @ split_lines b"
proof (induction a)
  case Nil
  then show ?case by simp
next
  case (Cons c a)
  then show ?case using split_lines_ne[of a] by (cases "split_lines a") auto
qed

lemma split_lines_single: "CHR 0x0A \<notin> set s \<Longrightarrow> split_lines s = [s]"
  by (induction s) auto

lemma addP_known: "st_map st i \<noteq> None \<Longrightarrow> addP i lbl st = st"
  by (cases "st_map st i") (simp_all add: addP_def)

lemma parse_line_redeclare:
  assumes "classify (trim decl) = ParticipantDecl i lbl" "map_ok st" "i \<in> set (ids_of st)"
  shows "parse_line st decl = st"
proof -
  from assms(2,3) have "st_map st i \<noteq> None" by (auto simp: map_ok_def)
  with assms(1) show ?thesis by (simp add: parse_line_def addP_known)
qed

lemma parse_as_fold:
  "parse code = (let st = foldl parse_line init_pstate (split_lines code)
      in \<lparr>participants = st_participants st, messages = st_messages st, title = st_title st\<rparr>)"
  by (simp add: parse_def)

text \<open>
  Claim C10. A participant declaration for an id that the text before it has already
  registered (by a declaration or as the endpoint of a message) changes nothing:
  the text with the declaration line inserted between two lines, or added after the
  last one, parses to the same diagram - the same participants with their labels,
  colours and positions, the same messages, the same title. The line is any line
  that \<^verbatim>\<open>parse\<close> takes as a participant declaration of the id, with or without alias.
\<close>

theorem parse_redeclare_noop:
  assumes "classify (trim decl) = ParticipantDecl i lbl"
    and "CHR 0x0A \<notin> set decl"
    and "i \<in> set (map p_id (participants (parse a)))"
  shows "parse (a @ [CHR 0x0A] @ decl @ [CHR 0x0A] @ b) = parse (a @ [CHR 0x0A] @ b)
       \<and> parse (a @ [CHR 0x0A] @ decl) = parse a"
proof -
  define st where "st = foldl parse_line init_pstate (split_lines a)"
  have ok: "map_ok st"
    unfolding st_def using foldl_parse_line_ids[OF map_ok_init] by blast
  have "i \<in> set (ids_of st)"
    using assms(3) by (simp add: st_def parse_def Let_def ids_of_def)
  from parse_line_redeclare[OF assms(1) ok this] have noop: "parse_line st decl = st" .
  have l1: "split_lines (a @ [CHR 0x0A] @ decl @ [CHR 0x0A] @ b)
      = split_lines a @ [decl] @ split_lines b"
    using split_lines_append[of a "decl @ CHR 0x0A # b"] split_lines_append[of decl b]
      split_lines_single[OF assms(2)] by simp
  have l2: "split_lines (a @ [CHR 0x0A] @ b) = split_lines a @ split_lines b"
    using split_lines_append[of a b] by simp
  have l3: "split_lines (a @ [CHR 0x0A] @ decl) = split_lines a @ [decl]"
    using split_lines_append[of a decl] split_lines_single[OF assms(2)] by simp
  show ?thesis
    unfolding parse_as_fold l1 l2 l3 using noop by (simp add: st_def[symmetric])
qed

lemma code_redeclare_hyps:
  "classify (trim code_redeclare_line) = ParticipantDecl ''A'' (Some ''Alice'')
   \<and> CHR 0x0A \<notin> set code_redeclare_line
   \<and> ''A'' \<in> set (map p_id (participants (parse code_redeclare_before)))"
  by code_simp

lemma code_redeclare_label:
  "map p_label (participants (parse code_redeclare_before)) = [''A'', ''B'']"
  by code_simp

theorem parse_redeclare_noop_witness:
  "classify (trim code_redeclare_line) = ParticipantDecl ''A'' (Some ''Alice'')
   \<and> CHR 0x0A \<notin> set code_redeclare_line
   \<and> ''A'' \<in> set (map p_id (participants (parse code_redeclare_before)))
   \<and> parse (code_redeclare_before @ [CHR 0x0A] @ code_redeclare_line @ [CHR 0x0A]
             @ code_redeclare_after)
       = parse (code_redeclare_before @ [CHR 0x0A] @ code_redeclare_after)
   \<and> map p_label (participants (parse (code_redeclare_before @ [CHR 0x0A]
             @ code_redeclare_line))) = [''A'', ''B'']"
proof -
  from code_redeclare_hyps have h: "classify (trim code_redeclare_line)
      = ParticipantDecl ''A'' (Some ''Alice'')"
    "CHR 0x0A \<notin> set code_redeclare_line"
    "''A'' \<in> set (map p_id (participants (parse code_redeclare_before)))"
    by blast+
  from parse_redeclare_noop[OF h, of code_redeclare_after] h code_redeclare_label
  show ?thesis by simp
qed

section \<open>The markers of a message\<close>

lemma buildSvg_eq:
  "participants d \<noteq> [] \<Longrightarrow> buildSvg d o' l = svg_open d l @ concat (parts d o' l) @ ''</svg>''"
  by (simp add: buildSvg_def svg_open_def)

lemma step_marker_markers:
  "concat (step_marker o' fp fx y msg) =
     (if coloredNumbers o'
      then marker_at o' fp (fmt fx) y (numeral_text msg) @ marker_at o' fp ''22'' y (numeral_text msg)
      else marker_at o' fp (fmt fx) y (numeral_text msg))"
  by (simp add: step_marker_def marker_at_def circle_at_def numeral_at_def numeral_open_def)

lemma message_ends_with_marker:
  "concat (message ps o' l msg) =
     concat (message_arrow ps o' l msg)
     @ concat (step_marker o' (ps ! src_index ps msg) (cx l (src_index ps msg))
                 (msgY l (msg_step msg)) msg)"
  by (simp add: message_def message_arrow_def Let_def src_index_def)

lemma concat_map_split:
  "x \<in> set xs \<Longrightarrow>
   \<exists>pre post. A @ concat (B1 @ B2 @ B3 @ concat (map F xs) @ C) @ D = pre @ concat (F x) @ post"
proof -
  assume "x \<in> set xs"
  then obtain xs1 xs2 where "xs = xs1 @ x # xs2" by (auto simp: in_set_conv_decomp)
  then have "A @ concat (B1 @ B2 @ B3 @ concat (map F xs) @ C) @ D
      = (A @ concat B1 @ concat B2 @ concat B3 @ concat (concat (map F xs1))) @ concat (F x)
        @ (concat (concat (map F xs2)) @ concat C @ D)"
    by simp
  then show ?thesis by blast
qed

lemma buildSvg_contains_message:
  assumes "participants d \<noteq> []" "msg \<in> set (messages d)"
  shows "\<exists>pre post. buildSvg d o' l = pre @ concat (message (participants d) o' l msg) @ post"
  unfolding buildSvg_eq[OF assms(1)] parts_def Let_def
  by (rule concat_map_split[OF assms(2)])

lemma sublist_mid: "sublist b (a @ b @ c)"
  by (auto simp: sublist_def)

lemma foldl_upd_map_of:
  "foldl (\<lambda>m (k, i). m(k \<mapsto> i)) m0 kvs = (\<lambda>k. case map_of (rev kvs) k of None \<Rightarrow> m0 k | Some v \<Rightarrow> Some v)"
proof (induction kvs arbitrary: m0)
  case Nil
  then show ?case by simp
next
  case (Cons kv kvs)
  show ?case
    unfolding foldl_Cons Cons.IH
    by (cases kv) (auto simp: fun_eq_iff map_add_def split: option.splits)
qed

lemma idx_map_of: "idx ps = map_of (rev (zip (map p_id ps) [0 ..< length ps]))"
  unfolding idx_def foldl_upd_map_of by (auto simp: fun_eq_iff split: option.splits)

lemma idx_Some: "idx ps k = Some i \<Longrightarrow> i < length ps \<and> p_id (ps ! i) = k"
proof -
  assume "idx ps k = Some i"
  then have "(k, i) \<in> set (zip (map p_id ps) [0 ..< length ps])"
    unfolding idx_map_of by (auto dest: map_of_SomeD)
  then show ?thesis by (auto simp: set_zip)
qed

lemma idx_None: "idx ps k = None \<Longrightarrow> k \<notin> set (map p_id ps)"
proof -
  assume "idx ps k = None"
  then have "k \<notin> fst ` set (rev (zip (map p_id ps) [0 ..< length ps]))"
    unfolding idx_map_of by (simp add: map_of_eq_None_iff)
  then have "k \<notin> set (map fst (zip (map p_id ps) [0 ..< length ps]))"
    by (metis set_map set_rev)
  moreover have "map fst (zip (map p_id ps) [0 ..< length ps]) = map p_id ps"
    by (rule map_fst_zip) simp
  ultimately show ?thesis by simp
qed

lemma src_index_source:
  "msg_from msg \<in> set (map p_id ps) \<Longrightarrow> p_id (ps ! src_index ps msg) = msg_from msg"
  using idx_Some[of ps "msg_from msg"] idx_None[of ps "msg_from msg"]
  by (cases "idx ps (msg_from msg)") (auto simp: src_index_def)

lemma src_index_less: "ps \<noteq> [] \<Longrightarrow> src_index ps msg < length ps"
  using idx_Some[of ps "msg_from msg"]
  by (cases "idx ps (msg_from msg)") (auto simp: src_index_def)

text \<open>
  Claim C1, as the code has it. For a diagram with a participant and a message
  \<open>msg\<close> of it, the markup contains the marker of \<open>msg\<close> at the height of its row,
  \<open>msgY l (msg_step msg)\<close>, and at the horizontal position of the lifeline of its source
  participant; the numeral is the display step when there is one, else the sequence
  index; the participant that gives the marker its colour, at \<open>src_index\<close>, has the
  source's identifier whenever the source is a participant of the diagram. The second
  marker, at the fixed position 22 of the left margin, is in the markup when the
  coloring of the step numbers is on.
\<close>

theorem message_markers:
  assumes "participants d \<noteq> []" and "msg \<in> set (messages d)"
  shows "sublist (marker_at o' (participants d ! src_index (participants d) msg)
                     (fmt (cx l (src_index (participants d) msg))) (msgY l (msg_step msg))
                     (fmt (case msg_displayStep msg of None \<Rightarrow> number_of_nat (msg_step msg)
                           | Some n \<Rightarrow> n)))
                  (buildSvg d o' l)
       \<and> (coloredNumbers o' \<longrightarrow>
            sublist (marker_at o' (participants d ! src_index (participants d) msg) ''22''
                       (msgY l (msg_step msg))
                       (fmt (case msg_displayStep msg of None \<Rightarrow> number_of_nat (msg_step msg)
                             | Some n \<Rightarrow> n)))
                    (buildSvg d o' l))
       \<and> (msg_from msg \<in> set (map p_id (participants d)) \<longrightarrow>
            p_id (participants d ! src_index (participants d) msg) = msg_from msg)"
proof -
  from buildSvg_contains_message[OF assms, of o' l] obtain pre post where
    b: "buildSvg d o' l = pre @ concat (message (participants d) o' l msg) @ post" by blast
  define body where "body = concat (message_arrow (participants d) o' l msg)"
  have m: "concat (message (participants d) o' l msg) =
      body @ concat (step_marker o' (participants d ! src_index (participants d) msg)
                       (cx l (src_index (participants d) msg)) (msgY l (msg_step msg)) msg)"
    unfolding body_def by (rule message_ends_with_marker)
  define X where "X = marker_at o' (participants d ! src_index (participants d) msg)
                     (fmt (cx l (src_index (participants d) msg))) (msgY l (msg_step msg))
                     (numeral_text msg)"
  define Y where "Y = marker_at o' (participants d ! src_index (participants d) msg) ''22''
                       (msgY l (msg_step msg)) (numeral_text msg)"
  have sm: "concat (step_marker o' (participants d ! src_index (participants d) msg)
                       (cx l (src_index (participants d) msg)) (msgY l (msg_step msg)) msg)
      = (if coloredNumbers o' then X @ Y else X)"
    unfolding X_def Y_def by (rule step_marker_markers)
  have 1: "sublist X (buildSvg d o' l)"
  proof (cases "coloredNumbers o'")
    case True
    then have "buildSvg d o' l = (pre @ body) @ X @ (Y @ post)" unfolding b m sm by simp
    then show ?thesis using sublist_mid by metis
  next
    case False
    then have "buildSvg d o' l = (pre @ body) @ X @ post" unfolding b m sm by simp
    then show ?thesis using sublist_mid by metis
  qed
  have 2: "sublist Y (buildSvg d o' l)" if "coloredNumbers o'"
  proof -
    from that have "buildSvg d o' l = (pre @ body @ X) @ Y @ post" unfolding b m sm by simp
    then show ?thesis using sublist_mid by metis
  qed
  from 1 2 src_index_source[of msg "participants d"] show ?thesis
    unfolding X_def Y_def numeral_text_def by blast
qed

lemma code_done_diagram:
  "participants (parse code_done) \<noteq> []"
  "msg_done \<in> set (messages (parse code_done))"
  "msg_from msg_done \<in> set (map p_id (participants (parse code_done)))"
  "0 < length (messages (parse code_done))"
  using parse_code_done by (simp_all add: msg_done_def)

theorem message_markers_witness:
  "participants (parse code_done) \<noteq> []
   \<and> msg_done \<in> set (messages (parse code_done))
   \<and> sublist (marker_at DEFAULT_OPTS
                 (participants (parse code_done) ! src_index (participants (parse code_done)) msg_done)
                 (fmt (cx DEFAULT_LAYOUT (src_index (participants (parse code_done)) msg_done)))
                 (msgY DEFAULT_LAYOUT (msg_step msg_done))
                 (fmt (case msg_displayStep msg_done of None \<Rightarrow> number_of_nat (msg_step msg_done)
                       | Some n \<Rightarrow> n)))
               (buildSvg (parse code_done) DEFAULT_OPTS DEFAULT_LAYOUT)
   \<and> sublist (marker_at DEFAULT_OPTS
                 (participants (parse code_done) ! src_index (participants (parse code_done)) msg_done)
                 ''22'' (msgY DEFAULT_LAYOUT (msg_step msg_done))
                 (fmt (case msg_displayStep msg_done of None \<Rightarrow> number_of_nat (msg_step msg_done)
                       | Some n \<Rightarrow> n)))
               (buildSvg (parse code_done) DEFAULT_OPTS DEFAULT_LAYOUT)
   \<and> p_id (participants (parse code_done) ! src_index (participants (parse code_done)) msg_done)
       = msg_from msg_done"
proof -
  have col: "coloredNumbers DEFAULT_OPTS" by (simp add: DEFAULT_OPTS_def)
  from message_markers[OF code_done_diagram(1,2), of DEFAULT_OPTS DEFAULT_LAYOUT]
    code_done_diagram(1,2,3) col
  show ?thesis by blast
qed

section \<open>The display step and the rows\<close>

lemma self_message_displayStep:
  "self_message o' l fp fx y (m\<lparr>msg_displayStep := ds\<rparr>) = self_message o' l fp fx y m"
  by (simp add: self_message_def dash_attr_def pillW_def)

lemma cross_message_displayStep:
  "cross_message o' l fp fx tx y (m\<lparr>msg_displayStep := ds\<rparr>) = cross_message o' l fp fx tx y m"
  by (simp add: cross_message_def dash_attr_def pillW_def)

lemma numeral_text_displayStep:
  "numeral_text (m\<lparr>msg_displayStep := ds\<rparr>)
     = fmt (case ds of None \<Rightarrow> number_of_nat (msg_step m) | Some n \<Rightarrow> n)"
  by (cases ds) (simp_all add: numeral_text_def)

lemma message_displayStep:
  "concat (message ps o' l (m\<lparr>msg_displayStep := ds\<rparr>)) =
     concat (message_arrow ps o' l m)
     @ concat (step_marker o' (ps ! src_index ps m) (cx l (src_index ps m))
                 (msgY l (msg_step m)) (m\<lparr>msg_displayStep := ds\<rparr>))"
  by (simp add: message_def message_arrow_def Let_def src_index_def self_message_displayStep
        cross_message_displayStep)

lemma svg_frame_messages:
  "length ms' = length (messages d) \<Longrightarrow>
   svg_open (d\<lparr>messages := ms'\<rparr>) l = svg_open d l
   \<and> background (d\<lparr>messages := ms'\<rparr>) l = background d l
   \<and> title_text (d\<lparr>messages := ms'\<rparr>) o' l = title_text d o' l
   \<and> lifeline (d\<lparr>messages := ms'\<rparr>) o' l = lifeline d o' l
   \<and> svgH (d\<lparr>messages := ms'\<rparr>) l = svgH d l"
  by (simp add: svg_open_def background_def title_text_def lifeline_def svgW_def svgH_def lb_def
        fun_eq_iff)

lemma buildSvg_at_message:
  assumes "participants d \<noteq> []" and "k < length (messages d)"
  shows "\<exists>A Z. \<forall>m'. buildSvg (d\<lparr>messages := (messages d)[k := m']\<rparr>) o' l
           = A @ concat (message (participants d) o' l m') @ Z"
proof -
  define ps where "ps = participants d"
  define ips where "ips = zip ps [0 ..< length ps]"
  define A where "A = svg_open d l
     @ concat ([background d l, title_text d o' l] @ map (lifeline d o' l) ips
               @ concat (map (box o' l (TITLE_H + TP)) ips))
     @ concat (concat (map (message ps o' l) (take k (messages d))))"
  define Z where "Z = concat (concat (map (message ps o' l) (drop (Suc k) (messages d))))
     @ concat (concat (map (box o' l (svgH d l - BOT_PAD - BH l)) ips)) @ ''</svg>''"
  have "buildSvg (d\<lparr>messages := (messages d)[k := m']\<rparr>) o' l
           = A @ concat (message (participants d) o' l m') @ Z" for m'
  proof -
    have ne: "participants (d\<lparr>messages := (messages d)[k := m']\<rparr>) \<noteq> []"
      using assms(1) by simp
    have len: "length ((messages d)[k := m']) = length (messages d)" by simp
    note fr = svg_frame_messages[OF len, of l o']
    have upd: "(messages d)[k := m'] = take k (messages d) @ m' # drop (Suc k) (messages d)"
      using assms(2) by (rule upd_conv_take_nth_drop)
    show ?thesis
      unfolding buildSvg_eq[OF ne] parts_def Let_def
      apply (simp only: fr Diagram.simps)
      apply (simp only: upd)
      apply (simp add: A_def Z_def ps_def ips_def)
      done
  qed
  then show ?thesis by blast
qed

text \<open>
  Claim C8. The height of a row, \<open>msgY l s\<close>, has the layout and the sequence index
  for its only arguments. When the display step \<open>ds\<close> of the message at position \<open>k\<close>
  varies and all the rest stays, the markup is a fixed text around the numeral of each
  marker of that message (two markers with the coloring of the step numbers on, one
  with it off): nothing but the numeral changes, and the numeral's element stays at the
  height \<open>msgY l (msg_step m) + 1\<close> of the row of the message.
\<close>

theorem displayStep_changes_numeral_only:
  assumes "participants d \<noteq> []" and "k < length (messages d)"
  shows "\<exists>pre mid post. \<forall>ds.
     buildSvg (d\<lparr>messages := (messages d)[k := (messages d ! k)\<lparr>msg_displayStep := ds\<rparr>]\<rparr>) o' l
       = (if coloredNumbers o'
          then pre
               @ numeral_open o' (fmt (cx l (src_index (participants d) (messages d ! k))))
                   (msgY l (msg_step (messages d ! k)))
               @ fmt (case ds of None \<Rightarrow> number_of_nat (msg_step (messages d ! k)) | Some n \<Rightarrow> n)
               @ mid
               @ numeral_open o' ''22'' (msgY l (msg_step (messages d ! k)))
               @ fmt (case ds of None \<Rightarrow> number_of_nat (msg_step (messages d ! k)) | Some n \<Rightarrow> n)
               @ post
          else pre
               @ numeral_open o' (fmt (cx l (src_index (participants d) (messages d ! k))))
                   (msgY l (msg_step (messages d ! k)))
               @ fmt (case ds of None \<Rightarrow> number_of_nat (msg_step (messages d ! k)) | Some n \<Rightarrow> n)
               @ post)"
proof -
  define m where "m = messages d ! k"
  define ps where "ps = participants d"
  define N where "N = (\<lambda>ds. fmt (case ds of None \<Rightarrow> number_of_nat (msg_step m) | Some n \<Rightarrow> n))"
  from buildSvg_at_message[OF assms, of o' l] obtain A Z where
    az: "\<And>m'. buildSvg (d\<lparr>messages := (messages d)[k := m']\<rparr>) o' l
           = A @ concat (message ps o' l m') @ Z" unfolding ps_def by blast
  define body where "body = concat (message_arrow ps o' l m)"
  have body: "\<And>ds. concat (message ps o' l (m\<lparr>msg_displayStep := ds\<rparr>)) =
     body @ concat (step_marker o' (ps ! src_index ps m) (cx l (src_index ps m))
                      (msgY l (msg_step m)) (m\<lparr>msg_displayStep := ds\<rparr>))"
    unfolding body_def by (rule message_displayStep)
  define fp where "fp = ps ! src_index ps m"
  define xs where "xs = fmt (cx l (src_index ps m))"
  define y where "y = msgY l (msg_step m)"
  define O1 where "O1 = numeral_open o' xs y"
  define O2 where "O2 = numeral_open o' ''22'' y"
  have sm: "concat (step_marker o' fp (cx l (src_index ps m)) y (m\<lparr>msg_displayStep := ds\<rparr>))
      = (if coloredNumbers o'
         then circle_at fp xs y @ O1 @ N ds @ (''</text>'' @ circle_at fp ''22'' y) @ O2 @ N ds
              @ ''</text>''
         else O1 @ N ds @ ''</text>'')" for ds
    unfolding step_marker_markers marker_at_def numeral_at_def numeral_text_displayStep N_def
      xs_def O1_def O2_def
    by simp
  have all: "buildSvg (d\<lparr>messages := (messages d)[k := m\<lparr>msg_displayStep := ds\<rparr>]\<rparr>) o' l
      = (if coloredNumbers o'
         then (A @ body @ circle_at fp xs y) @ O1 @ N ds
              @ (''</text>'' @ circle_at fp ''22'' y) @ O2 @ N ds @ (''</text>'' @ Z)
         else (A @ body) @ O1 @ N ds @ (''</text>'' @ Z))" for ds
    unfolding az body sm[unfolded fp_def y_def] fp_def y_def by simp
  show ?thesis
  proof (cases "coloredNumbers o'")
    case True
    with all have "\<forall>ds. buildSvg (d\<lparr>messages := (messages d)[k := m\<lparr>msg_displayStep := ds\<rparr>]\<rparr>) o' l
        = (if coloredNumbers o'
           then (A @ body @ circle_at fp xs y) @ O1 @ N ds
                @ (''</text>'' @ circle_at fp ''22'' y) @ O2 @ N ds @ (''</text>'' @ Z)
           else (A @ body @ circle_at fp xs y) @ O1 @ N ds @ (''</text>'' @ Z))"
      by simp
    then show ?thesis unfolding N_def m_def O1_def O2_def xs_def y_def ps_def by blast
  next
    case False
    with all have "\<forall>ds. buildSvg (d\<lparr>messages := (messages d)[k := m\<lparr>msg_displayStep := ds\<rparr>]\<rparr>) o' l
        = (if coloredNumbers o'
           then (A @ body) @ O1 @ N ds @ [] @ O2 @ N ds @ (''</text>'' @ Z)
           else (A @ body) @ O1 @ N ds @ (''</text>'' @ Z))"
      by simp
    then show ?thesis unfolding N_def m_def O1_def O2_def xs_def y_def ps_def by blast
  qed
qed

theorem displayStep_changes_numeral_only_witness:
  "participants (parse code_done) \<noteq> []
   \<and> 0 < length (messages (parse code_done))
   \<and> (\<exists>pre mid post. \<forall>ds.
         buildSvg (parse code_done\<lparr>messages :=
             (messages (parse code_done))[0 := (messages (parse code_done) ! 0)\<lparr>msg_displayStep := ds\<rparr>]\<rparr>)
           DEFAULT_OPTS DEFAULT_LAYOUT
         = (if coloredNumbers DEFAULT_OPTS
            then pre
                 @ numeral_open DEFAULT_OPTS
                     (fmt (cx DEFAULT_LAYOUT
                        (src_index (participants (parse code_done)) (messages (parse code_done) ! 0))))
                     (msgY DEFAULT_LAYOUT (msg_step (messages (parse code_done) ! 0)))
                 @ fmt (case ds of None \<Rightarrow> number_of_nat (msg_step (messages (parse code_done) ! 0))
                        | Some n \<Rightarrow> n)
                 @ mid
                 @ numeral_open DEFAULT_OPTS ''22''
                     (msgY DEFAULT_LAYOUT (msg_step (messages (parse code_done) ! 0)))
                 @ fmt (case ds of None \<Rightarrow> number_of_nat (msg_step (messages (parse code_done) ! 0))
                        | Some n \<Rightarrow> n)
                 @ post
            else pre
                 @ numeral_open DEFAULT_OPTS
                     (fmt (cx DEFAULT_LAYOUT
                        (src_index (participants (parse code_done)) (messages (parse code_done) ! 0))))
                     (msgY DEFAULT_LAYOUT (msg_step (messages (parse code_done) ! 0)))
                 @ fmt (case ds of None \<Rightarrow> number_of_nat (msg_step (messages (parse code_done) ! 0))
                        | Some n \<Rightarrow> n)
                 @ post))"
  using displayStep_changes_numeral_only[OF code_done_diagram(1,4), of DEFAULT_OPTS DEFAULT_LAYOUT]
    code_done_diagram(1,4)
  by blast

section \<open>Escaped text in the markup\<close>

lemma ms_lit1:
  "ms (lit [x]) (s, c) = (case s of [] \<Rightarrow> [] | y # ys \<Rightarrow> if y = x then [(ys, c)] else [])"
  by (cases s) simp_all

lemma replace_all_char:
  "replace_all (lit [x]) (\<lambda>c. r) s = concat (map (\<lambda>y. if y = x then r else [y]) s)"
proof (induction s)
  case Nil
  show ?case by (subst replace_all.simps) simp
next
  case (Cons y s)
  show ?case by (subst replace_all.simps) (simp del: lit.simps add: ms_lit1 Cons.IH)
qed

lemma concat_map_concat_map:
  "concat (map g (concat (map h s))) = concat (map (\<lambda>c. concat (map g (h c))) s)"
  by (induction s) simp_all

lemma esc_chars: "esc s = concat (map esc_char s)"
proof -
  have "concat (map (\<lambda>y. if y = CHR 0x22 then ''&quot;'' else [y])
          (concat (map (\<lambda>y. if y = CHR ''>'' then ''&gt;'' else [y])
            (concat (map (\<lambda>y. if y = CHR ''<'' then ''&lt;'' else [y])
              (concat (map (\<lambda>y. if y = CHR ''&'' then ''&amp;'' else [y]) [c]))))))) = esc_char c" for c
    by (simp add: esc_char_def)
  then show ?thesis
    unfolding esc_def replace_all_char concat_map_concat_map by (induction s) simp_all
qed

lemma filter_markup_esc: "filter markup_char (esc s) = []"
  unfolding esc_chars by (induction s) (simp_all add: esc_char_def markup_char_def)

lemma set_dec: "set (dec n) \<subseteq> set ''0123456789''"
proof (induction n rule: dec.induct)
  case (1 n)
  have d: "''0123456789'' ! k \<in> set ''0123456789''" if "k < 10" for k
    using that nth_mem[of k "''0123456789''"] by simp
  show ?case
  proof (cases "n < 10")
    case True
    then show ?thesis by (subst dec.simps) (use d[of "nat n"] in simp)
  next
    case False
    have "nat (n mod 10) < 10" by (simp add: nat_less_iff)
    with False 1 d[of "nat (n mod 10)"] show ?thesis by (subst dec.simps) simp
  qed
qed

lemma filter_markup_dec: "filter markup_char (dec n) = []"
  using set_dec[of n] by (auto simp: filter_empty_conv markup_char_def)

lemma filter_markup_take: "filter markup_char s = [] \<Longrightarrow> filter markup_char (take k s) = []"
  by (auto simp: filter_empty_conv dest: in_set_takeD)

lemma filter_markup_drop: "filter markup_char s = [] \<Longrightarrow> filter markup_char (drop k s) = []"
  by (auto simp: filter_empty_conv dest: in_set_dropD)

lemma filter_markup_fmt_pos: "filter markup_char (fmt_pos x) = []"
  by (auto simp: fmt_pos_def Let_def filter_markup_dec filter_markup_take filter_markup_drop
        markup_char_def split: prod.splits)

lemma filter_markup_fmt: "filter markup_char (fmt a) = []"
  by (cases a) (simp_all add: fmt_def filter_markup_fmt_pos markup_char_def)

lemma blank_fields:
  "p_id (p\<lparr>p_label := x\<rparr>) = p_id p"
  "p_color (p\<lparr>p_label := x\<rparr>) = p_color p"
  "p_label (p\<lparr>p_label := x\<rparr>) = x"
  "msg_from (m\<lparr>msg_text := x\<rparr>) = msg_from m"
  "msg_to (m\<lparr>msg_text := x\<rparr>) = msg_to m"
  "msg_text (m\<lparr>msg_text := x\<rparr>) = x"
  "msg_arrow (m\<lparr>msg_text := x\<rparr>) = msg_arrow m"
  "msg_step (m\<lparr>msg_text := x\<rparr>) = msg_step m"
  "msg_displayStep (m\<lparr>msg_text := x\<rparr>) = msg_displayStep m"
  by simp_all

lemmas markup_filter =
  Let_def concat.simps concat_append append_Nil2 append_Nil filter_append filter.simps(1)
  filter_markup_esc filter_markup_fmt blank_fields fst_conv snd_conv
  if_distrib[of "filter markup_char"] if_distrib[of concat]

lemma filter_self_message_blank:
  "filter markup_char (concat (self_message o' l (fp\<lparr>p_label := []\<rparr>) fx y (m\<lparr>msg_text := []\<rparr>)))
     = filter markup_char (concat (self_message o' l fp fx y m))"
  by (simp only: self_message_def dash_attr_def markup_filter cong: if_cong)

lemma filter_cross_message_blank:
  "filter markup_char (concat (cross_message o' l (fp\<lparr>p_label := []\<rparr>) fx tx y (m\<lparr>msg_text := []\<rparr>)))
     = filter markup_char (concat (cross_message o' l fp fx tx y m))"
  by (simp only: cross_message_def dash_attr_def markup_filter cong: if_cong)

lemma filter_step_marker_blank:
  "filter markup_char (concat (step_marker o' (fp\<lparr>p_label := []\<rparr>) fx y (m\<lparr>msg_text := []\<rparr>)))
     = filter markup_char (concat (step_marker o' fp fx y m))"
  by (simp only: step_marker_def numeral_text_def markup_filter cong: if_cong)

lemma filter_box_blank:
  "filter markup_char (concat (box o' l y (p\<lparr>p_label := []\<rparr>, i)))
     = filter markup_char (concat (box o' l y (p, i)))"
  by (simp only: box_def markup_filter cong: if_cong)

lemma lifeline_blank:
  "lifeline (blank d) o' l (p\<lparr>p_label := []\<rparr>, i) = lifeline d o' l (p, i)"
  by (simp only: lifeline_def lb_def svgH_def blank_def markup_filter Diagram.simps length_map)

lemma idx_blank: "idx (map (\<lambda>p. p\<lparr>p_label := []\<rparr>) ps) = idx ps"
  by (simp add: idx_def comp_def)

lemma svgW_blank: "svgW (blank d) l = svgW d l"
  by (simp add: svgW_def blank_def)

lemma svgH_blank: "svgH (blank d) l = svgH d l"
  by (simp add: svgH_def blank_def)

lemma filter_message_blank:
  assumes "ps \<noteq> []"
  shows "filter markup_char (concat (message (map (\<lambda>p. p\<lparr>p_label := []\<rparr>) ps) o' l (m\<lparr>msg_text := []\<rparr>)))
           = filter markup_char (concat (message ps o' l m))"
proof -
  define fi where "fi = (case idx ps (msg_from m) of None \<Rightarrow> 0 | Some i \<Rightarrow> i)"
  have "fi < length ps"
    using assms idx_Some[of ps "msg_from m"]
    by (cases "idx ps (msg_from m)") (auto simp: fi_def)
  then have nth: "map (\<lambda>p. p\<lparr>p_label := []\<rparr>) ps ! fi = (ps ! fi)\<lparr>p_label := []\<rparr>"
    by simp
  show ?thesis
    unfolding message_def idx_blank blank_fields Let_def fi_def[symmetric] nth
    by (simp only: concat_append filter_append if_distrib[of concat] if_distrib[of "filter markup_char"]
          filter_self_message_blank filter_cross_message_blank filter_step_marker_blank)
qed

lemma filter_concat_map_cong:
  assumes "\<And>x. x \<in> set xs \<Longrightarrow> filter P (concat (g (h x))) = filter P (concat (g' x))"
  shows "filter P (concat (concat (map g (map h xs)))) = filter P (concat (concat (map g' xs)))"
  using assms by (induction xs) simp_all

lemma filter_title_blank:
  "filter markup_char (title_text (blank d) o' l) = filter markup_char (title_text d o' l)"
  by (simp only: title_text_def svgW_blank filter_append filter_markup_esc)

lemma filter_parts_blank:
  assumes "participants d \<noteq> []"
  shows "filter markup_char (concat (parts (blank d) o' l)) = filter markup_char (concat (parts d o' l))"
proof -
  let ?h = "\<lambda>p. p\<lparr>p_label := []\<rparr>"
  let ?ps = "participants d"
  let ?ips = "zip ?ps [0 ..< length ?ps]"
  have ps': "participants (blank d) = map ?h ?ps"
    and ms': "messages (blank d) = map (\<lambda>m. m\<lparr>msg_text := []\<rparr>) (messages d)"
    by (simp_all add: blank_def)
  have ips': "zip (map ?h ?ps) [0 ..< length (map ?h ?ps)] = map (\<lambda>(p, i). (?h p, i)) ?ips"
    by (simp add: zip_map1)
  have bg: "background (blank d) l = background d l"
    by (simp add: background_def svgW_blank svgH_blank)
  have ll: "map (lifeline (blank d) o' l) (map (\<lambda>(p, i). (?h p, i)) ?ips) = map (lifeline d o' l) ?ips"
    by (simp add: lifeline_blank split_def)
  have bx: "filter markup_char (concat (concat (map (box o' l y) (map (\<lambda>(p, i). (?h p, i)) ?ips))))
            = filter markup_char (concat (concat (map (box o' l y) ?ips)))" for y
    by (rule filter_concat_map_cong) (auto simp: filter_box_blank)
  have msgs: "filter markup_char (concat (concat (map (message (map ?h ?ps) o' l)
                 (map (\<lambda>m. m\<lparr>msg_text := []\<rparr>) (messages d)))))
            = filter markup_char (concat (concat (map (message ?ps o' l) (messages d))))"
    by (rule filter_concat_map_cong) (rule filter_message_blank[OF assms])
  show ?thesis
    unfolding parts_def Let_def ps' ms' ips' bg ll svgH_blank
    by (simp only: concat_append concat.simps filter_append bx msgs filter_title_blank)
qed

lemma svg_open_blank: "svg_open (blank d) l = svg_open d l"
  by (simp add: svg_open_def svgW_blank svgH_blank)

lemma filter_buildSvg_blank:
  "filter markup_char (buildSvg (blank d) o' l) = filter markup_char (buildSvg d o' l)"
proof (cases "participants d = []")
  case True
  then show ?thesis by (simp add: buildSvg_def blank_def)
next
  case False
  then have "participants (blank d) \<noteq> []" by (simp add: blank_def)
  then show ?thesis
    unfolding buildSvg_eq[OF False] buildSvg_eq[OF \<open>participants (blank d) \<noteq> []\<close>]
    by (simp only: filter_append filter_parts_blank[OF False] svg_open_blank)
qed

lemma sublist_skip: "sublist s b \<Longrightarrow> sublist s (a @ b)"
  by (auto simp: sublist_def) (metis append.assoc)

lemma sublist_left: "sublist s a \<Longrightarrow> sublist s (a @ b)"
  by (auto simp: sublist_def) (metis append.assoc)

lemma sublist_here: "sublist s (s @ b)"
  by (auto simp: sublist_def intro: exI[of _ "[]"])

lemma sublist_trans': "sublist a b \<Longrightarrow> sublist b c \<Longrightarrow> sublist a c"
  by (rule sublist_order.order_trans)

lemma title_text_contains:
  "sublist (esc (case title d of None \<Rightarrow> DEFAULT_DIAGRAM_TITLE | Some t \<Rightarrow> t)) (title_text d o' l)"
  unfolding title_text_def by (intro sublist_here sublist_skip)

lemma box_contains: "sublist (esc (p_label p)) (concat (box o' l y (p, i)))"
  unfolding box_def Let_def concat.simps fst_conv snd_conv append_Nil2
  by (intro sublist_here sublist_skip)

lemma self_message_contains: "sublist (esc (msg_text m)) (concat (self_message o' l fp fx y m))"
proof (cases "coloredText o'")
  case True
  show ?thesis
    unfolding self_message_def Let_def concat_append concat.simps if_P[OF True] append_Nil2
    by (intro sublist_here sublist_skip)
next
  case False
  show ?thesis
    unfolding self_message_def Let_def concat_append concat.simps if_not_P[OF False] append_Nil2
    by (intro sublist_here sublist_skip)
qed

lemma cross_message_contains:
  "sublist (esc (msg_text m)) (concat (cross_message o' l fp fx tx y m))"
proof (cases "coloredText o'")
  case True
  show ?thesis
    unfolding cross_message_def Let_def concat_append concat.simps if_P[OF True] append_Nil2
    by (intro sublist_here sublist_skip)
next
  case False
  show ?thesis
    unfolding cross_message_def Let_def concat_append concat.simps if_not_P[OF False] append_Nil2
    by (intro sublist_here sublist_skip)
qed

lemma message_contains: "sublist (esc (msg_text m)) (concat (message ps o' l m))"
  unfolding message_ends_with_marker message_arrow_def Let_def
  by (rule sublist_left) (simp add: self_message_contains cross_message_contains)

lemma concat_map_split2:
  "x \<in> set xs \<Longrightarrow>
   \<exists>pre post. A @ concat (B1 @ B2 @ concat (map F xs) @ C) @ D = pre @ concat (F x) @ post"
  using concat_map_split[of x xs A B1 B2 "[]" F C D] by simp

lemma buildSvg_contains_box:
  assumes "participants d \<noteq> []" "q \<in> set (zip (participants d) [0 ..< length (participants d)])"
  shows "\<exists>pre post. buildSvg d o' l = pre @ concat (box o' l (TITLE_H + TP) q) @ post"
  unfolding buildSvg_eq[OF assms(1)] parts_def Let_def
  by (rule concat_map_split2[OF assms(2)])

lemma buildSvg_contains_texts:
  assumes ne: "participants d \<noteq> []"
  shows "sublist (esc (case title d of None \<Rightarrow> DEFAULT_DIAGRAM_TITLE | Some t \<Rightarrow> t)) (buildSvg d o' l)"
    and "p \<in> set (participants d) \<Longrightarrow> sublist (esc (p_label p)) (buildSvg d o' l)"
    and "m \<in> set (messages d) \<Longrightarrow> sublist (esc (msg_text m)) (buildSvg d o' l)"
proof -
  have "buildSvg d o' l = (svg_open d l @ background d l) @ title_text d o' l
      @ (concat (tl (tl (parts d o' l))) @ ''</svg>'')"
    unfolding buildSvg_eq[OF ne] by (simp add: parts_def Let_def)
  then have "sublist (title_text d o' l) (buildSvg d o' l)"
    using sublist_mid by metis
  with title_text_contains[of d o' l]
  show "sublist (esc (case title d of None \<Rightarrow> DEFAULT_DIAGRAM_TITLE | Some t \<Rightarrow> t)) (buildSvg d o' l)"
    by (rule sublist_trans')
next
  assume "p \<in> set (participants d)"
  then obtain i where i: "i < length (participants d)" "participants d ! i = p"
    by (auto simp: in_set_conv_nth)
  then have "(p, i) \<in> set (zip (participants d) [0 ..< length (participants d)])"
    by (auto simp: set_zip)
  from buildSvg_contains_box[OF ne this, of o' l] obtain pre post where
    "buildSvg d o' l = pre @ concat (box o' l (TITLE_H + TP) (p, i)) @ post" by blast
  then have "sublist (concat (box o' l (TITLE_H + TP) (p, i))) (buildSvg d o' l)"
    using sublist_mid by metis
  with box_contains[of p o' l "TITLE_H + TP" i]
  show "sublist (esc (p_label p)) (buildSvg d o' l)" by (rule sublist_trans')
next
  assume "m \<in> set (messages d)"
  from buildSvg_contains_message[OF ne this, of o' l] obtain pre post where
    "buildSvg d o' l = pre @ concat (message (participants d) o' l m) @ post" by blast
  then have "sublist (concat (message (participants d) o' l m)) (buildSvg d o' l)"
    using sublist_mid by metis
  with message_contains[of m "participants d" o' l]
  show "sublist (esc (msg_text m)) (buildSvg d o' l)" by (rule sublist_trans')
qed

text \<open>
  Claim C9. Escaping replaces each of the four characters by its entity and leaves
  the others, so an escaped text has no \<^verbatim>\<open><\<close>, \<^verbatim>\<open>>\<close> or \<^verbatim>\<open>"\<close>. The title (or the
  default title), every label and every message text are in the markup in their escaped
  form. And the \<^verbatim>\<open><\<close>, \<^verbatim>\<open>>\<close> and \<^verbatim>\<open>"\<close> of the markup, in their order, are those of the
  markup of the diagram with its texts taken out: none of them comes from a title, a
  label or a message text.
\<close>

theorem user_text_escaped:
  "esc s = concat (map esc_char s)
   \<and> filter markup_char (esc s) = []
   \<and> filter markup_char (buildSvg d o' l) = filter markup_char (buildSvg (blank d) o' l)
   \<and> (participants d \<noteq> [] \<longrightarrow>
        sublist (esc (case title d of None \<Rightarrow> DEFAULT_DIAGRAM_TITLE | Some t \<Rightarrow> t)) (buildSvg d o' l)
        \<and> (\<forall>p \<in> set (participants d). sublist (esc (p_label p)) (buildSvg d o' l))
        \<and> (\<forall>m \<in> set (messages d). sublist (esc (msg_text m)) (buildSvg d o' l)))"
  using esc_chars[of s] filter_markup_esc[of s] filter_buildSvg_blank[of d o' l]
    buildSvg_contains_texts[where d = d and o' = o' and l = l]
  by auto

lemma code_escaped_parsed:
  \<open>parse code_escaped =
     \<lparr>participants = [\<lparr>p_id = ''A'', p_label = ''"Al" & co'', p_color = ''#ef4444''\<rparr>,
                      \<lparr>p_id = ''B'', p_label = ''B'', p_color = ''#f97316''\<rparr>],
      messages = [\<lparr>msg_from = ''A'', msg_to = ''B'', msg_text = ''x > y'', msg_arrow = Solid,
                   msg_step = 1, msg_displayStep = None\<rparr>],
      title = Some ''a<b''\<rparr>\<close>
  by code_simp

lemma code_escaped_participants: "participants (parse code_escaped) \<noteq> []"
  by code_simp

theorem user_text_escaped_witness:
  \<open>participants (parse code_escaped) \<noteq> []
   \<and> esc ''a<b'' = concat (map esc_char ''a<b'')
   \<and> filter markup_char (esc ''a<b'') = []
   \<and> filter markup_char (buildSvg (parse code_escaped) DEFAULT_OPTS DEFAULT_LAYOUT)
       = filter markup_char (buildSvg (blank (parse code_escaped)) DEFAULT_OPTS DEFAULT_LAYOUT)
   \<and> sublist (esc (case title (parse code_escaped) of None \<Rightarrow> DEFAULT_DIAGRAM_TITLE | Some t \<Rightarrow> t))
         (buildSvg (parse code_escaped) DEFAULT_OPTS DEFAULT_LAYOUT)
   \<and> list_all (\<lambda>p. sublist (esc (p_label p)) (buildSvg (parse code_escaped) DEFAULT_OPTS DEFAULT_LAYOUT))
         (participants (parse code_escaped))
   \<and> list_all (\<lambda>m. sublist (esc (msg_text m)) (buildSvg (parse code_escaped) DEFAULT_OPTS DEFAULT_LAYOUT))
         (messages (parse code_escaped))\<close>
  using user_text_escaped[of "''a<b''" "parse code_escaped" DEFAULT_OPTS DEFAULT_LAYOUT]
    code_escaped_participants
  unfolding list_all_iff by blast

end
